theory Spec2Isabelle
  imports Complex_Main "HOL-Library.Word"
begin

unbundle bit_operations_syntax

section \<open>Bytes, exceptions and the random source\<close>

type_synonym byte = "8 word"
type_synonym bytes = "byte list"

text \<open>
  The exceptions of the two modules. \<open>CryptoError\<close> (crypto_utils.py) and
  \<open>AnalysisError\<close> (analysis.py) carry their message; \<open>ValueError\<close> is what the
  cipher library raises inside the \<open>try\<close> blocks, and \<open>UnicodeEncodeError\<close> what
  \<open>str.encode\<close> raises there; both are caught and wrapped.
\<close>

datatype exn = CryptoError string | AnalysisError string | ValueError string
  | UnicodeEncodeError string

fun str :: "exn \<Rightarrow> string" where
  "str (CryptoError m) = m"
| "str (AnalysisError m) = m"
| "str (ValueError m) = m"
| "str (UnicodeEncodeError m) = m"

text \<open>
  \<open>os.urandom\<close> reads the operating system's random source. The source is an
  explicit state: an infinite tape of bytes, of which \<open>urandom n\<close> returns the first
  \<open>n\<close> and leaves the rest.
\<close>

type_synonym rng = "nat \<Rightarrow> byte"

definition urandom :: "nat \<Rightarrow> rng \<Rightarrow> bytes \<times> rng" where
  "urandom n g = (map g [0..<n], \<lambda>i. g (n + i))"

text \<open>Python's \<open>xs[i:j]\<close> for \<open>0 \<le> i \<le> j\<close>; a slice never raises.\<close>

definition slice :: "nat \<Rightarrow> nat \<Rightarrow> 'a list \<Rightarrow> 'a list" where
  "slice i j xs = take (j - i) (drop i xs)"

section \<open>The container codec (crypto_utils.py)\<close>

definition combine_encrypted_data :: "bytes \<Rightarrow> bytes \<Rightarrow> bytes \<Rightarrow> bytes" where
  "combine_encrypted_data salt iv encrypted_data = salt @ iv @ encrypted_data"

definition split_encrypted_data :: "bytes \<Rightarrow> exn + (bytes \<times> bytes \<times> bytes)" where
  "split_encrypted_data combined_data =
     (if length combined_data < 32 then Inl (CryptoError ''Invalid encrypted data format'')
      else
        let salt = slice 0 16 combined_data;
            iv = slice 16 32 combined_data;
            encrypted_data = drop 32 combined_data
        in Inr (salt, iv, encrypted_data))"

section \<open>Key derivation and the cipher engine (crypto_utils.py)\<close>

text \<open>
  The functions of the cipher library that crypto_utils.py imports are not part of the
  repository. The key derivation function and the block cipher are parameters of the
  model: \<open>PBKDF2 password salt dkLen count\<close>, which may raise, and the encryption and
  decryption of one 16-byte block under a key. Padding and the CBC chaining are written
  out below as the library documents them.
\<close>

record crypto_lib =
  PBKDF2 :: "bytes \<Rightarrow> bytes \<Rightarrow> nat \<Rightarrow> int \<Rightarrow> exn + bytes"
  AES_encrypt_block :: "bytes \<Rightarrow> bytes \<Rightarrow> bytes"
  AES_decrypt_block :: "bytes \<Rightarrow> bytes \<Rightarrow> bytes"

text \<open>
  A Python \<open>str\<close> is the list of its code points, each below \<open>0x110000\<close>. The code
  points from \<open>0xD800\<close> to \<open>0xDFFF\<close> are the surrogates: a \<open>str\<close> may hold them, and
  UTF-8 has no encoding for them.
\<close>

type_synonym pystr = "nat list"

definition is_surrogate :: "nat \<Rightarrow> bool" where
  "is_surrogate c \<longleftrightarrow> 0xD800 \<le> c \<and> c \<le> 0xDFFF"

text \<open>The UTF-8 encoding of one code point, of one to four bytes.\<close>

definition encode_char :: "nat \<Rightarrow> bytes" where
  "encode_char c =
     (if c < 0x80 then [of_nat c]
      else if c < 0x800 then [of_nat (0xC0 + c div 64), of_nat (0x80 + c mod 64)]
      else if c < 0x10000
      then [of_nat (0xE0 + c div 4096), of_nat (0x80 + c div 64 mod 64), of_nat (0x80 + c mod 64)]
      else [of_nat (0xF0 + c div 262144), of_nat (0x80 + c div 4096 mod 64),
            of_nat (0x80 + c div 64 mod 64), of_nat (0x80 + c mod 64)])"

definition utf8 :: "pystr \<Rightarrow> bytes" where
  "utf8 s = concat (map encode_char s)"

text \<open>Decimal and four-digit hexadecimal numerals, for the message of the exception.\<close>

definition digit_char :: "nat \<Rightarrow> char" where
  "digit_char d = ''0123456789abcdef'' ! d"

fun decimal :: "nat \<Rightarrow> string" where
  "decimal n = (if n < 10 then [digit_char n] else decimal (n div 10) @ [digit_char (n mod 10)])"

declare decimal.simps [simp del]

definition hex4 :: "nat \<Rightarrow> string" where
  "hex4 c = [digit_char (c div 4096 mod 16), digit_char (c div 256 mod 16),
             digit_char (c div 16 mod 16), digit_char (c mod 16)]"

text \<open>
  \<open>password.encode()\<close>: UTF-8, with the error handler \<open>strict\<close>. At the first
  surrogate it raises \<open>UnicodeEncodeError\<close>, whose message names the run of surrogates
  that starts there: the character and its position when the run is one character long,
  and the first and last position otherwise.
\<close>

definition encode :: "pystr \<Rightarrow> exn + bytes" where
  "encode s =
     (let start = length (takeWhile (\<lambda>c. \<not> is_surrogate c) s)
      in if start = length s then Inr (utf8 s)
         else
           let end_pos = start + length (takeWhile is_surrogate (drop start s))
           in Inl (UnicodeEncodeError
                ([CHR 0x27] @ ''utf-8'' @ [CHR 0x27] @ '' codec can'' @ [CHR 0x27] @
                 (if end_pos = start + 1
                  then ''t encode character '' @ [CHR 0x27, CHR 0x5C] @ ''u'' @ hex4 (s ! start) @
                       [CHR 0x27] @ '' in position '' @ decimal start
                  else ''t encode characters in position '' @ decimal start @ ''-'' @
                       decimal (end_pos - 1)) @
                 '': surrogates not allowed'')))"

text \<open>The strings that UTF-8 can encode: those without a surrogate.\<close>

definition encodable :: "pystr \<Rightarrow> bool" where
  "encodable s \<longleftrightarrow> (\<forall>c\<in>set s. \<not> is_surrogate c)"

text \<open>
  \<open>derive_key(password, salt=None, iterations=200000)\<close>. The test \<open>not salt\<close> holds for
  \<open>None\<close> and for the empty byte string. The password check comes after the salt has
  been drawn, and outside the \<open>try\<close>; the password is encoded inside the \<open>try\<close>, as
  the first argument of the key derivation.
\<close>

definition derive_key ::
    "crypto_lib \<Rightarrow> pystr \<Rightarrow> bytes option \<Rightarrow> int \<Rightarrow> rng \<Rightarrow> (exn + bytes \<times> bytes) \<times> rng" where
  "derive_key lib password salt iterations g =
     (let (salt', g') =
            (case salt of
               None \<Rightarrow> urandom 16 g
             | Some s \<Rightarrow> if s = [] then urandom 16 g else (s, g))
      in if password = [] then (Inl (CryptoError ''Invalid password provided''), g')
         else
           (case encode password of
              Inl e \<Rightarrow> (Inl (CryptoError (''Key derivation failed: '' @ str e)), g')
            | Inr password_bytes \<Rightarrow>
                (case PBKDF2 lib password_bytes salt' 32 iterations of
                   Inl e \<Rightarrow> (Inl (CryptoError (''Key derivation failed: '' @ str e)), g')
                 | Inr key \<Rightarrow> (Inr (key, salt'), g'))))"

text \<open>\<open>pad\<close> and \<open>unpad\<close> of the library, style pkcs7.\<close>

definition pad :: "bytes \<Rightarrow> nat \<Rightarrow> bytes" where
  "pad data_to_pad block_size =
     (let padding_len = block_size - length data_to_pad mod block_size
      in data_to_pad @ replicate padding_len (of_nat padding_len))"

definition unpad :: "bytes \<Rightarrow> nat \<Rightarrow> exn + bytes" where
  "unpad padded_data block_size =
     (let pdata_len = length padded_data
      in if pdata_len = 0 then Inl (ValueError ''Zero-length input cannot be unpadded'')
         else if pdata_len mod block_size \<noteq> 0 then Inl (ValueError ''Input data is not padded'')
         else
           let padding_len = unat (last padded_data)
           in if padding_len < 1 \<or> padding_len > min block_size pdata_len
              then Inl (ValueError ''Padding is incorrect.'')
              else if drop (pdata_len - padding_len) padded_data
                        \<noteq> replicate padding_len (of_nat padding_len)
              then Inl (ValueError ''PKCS#7 padding is incorrect.'')
              else Inr (take (pdata_len - padding_len) padded_data))"

text \<open>
  \<open>AES.new(key, AES.MODE_CBC, iv)\<close> checks the lengths of the key and of the IV; the
  cipher object holds both.
\<close>

record cipher =
  cipher_key :: bytes
  cipher_iv :: bytes

definition AES_new :: "bytes \<Rightarrow> bytes \<Rightarrow> exn + cipher" where
  "AES_new key iv =
     (if length key \<notin> {16, 24, 32} then Inl (ValueError ''Incorrect AES key length'')
      else if length iv \<noteq> 16 then Inl (ValueError ''Incorrect IV length (it must be 16 bytes long)'')
      else Inr \<lparr>cipher_key = key, cipher_iv = iv\<rparr>)"

definition xor_bytes :: "bytes \<Rightarrow> bytes \<Rightarrow> bytes" where
  "xor_bytes a b = map2 (XOR) a b"

function chunks :: "bytes \<Rightarrow> bytes list" where
  "chunks xs = (if xs = [] then [] else take 16 xs # chunks (drop 16 xs))"
  by pat_completeness auto
termination
  by (relation "measure length") auto

declare chunks.simps [simp del]

text \<open>CBC: each plaintext block is XORed with the previous ciphertext block (the IV first).\<close>

fun cbc_encrypt_blocks :: "(bytes \<Rightarrow> bytes) \<Rightarrow> bytes \<Rightarrow> bytes list \<Rightarrow> bytes list" where
  "cbc_encrypt_blocks E prev [] = []"
| "cbc_encrypt_blocks E prev (p # ps) =
     (let c = E (xor_bytes p prev) in c # cbc_encrypt_blocks E c ps)"

fun cbc_decrypt_blocks :: "(bytes \<Rightarrow> bytes) \<Rightarrow> bytes \<Rightarrow> bytes list \<Rightarrow> bytes list" where
  "cbc_decrypt_blocks D prev [] = []"
| "cbc_decrypt_blocks D prev (c # cs) = xor_bytes (D c) prev # cbc_decrypt_blocks D c cs"

definition encrypt :: "crypto_lib \<Rightarrow> cipher \<Rightarrow> bytes \<Rightarrow> exn + bytes" where
  "encrypt lib ci plaintext =
     (if length plaintext mod 16 \<noteq> 0
      then Inl (ValueError ''Data must be padded to 16 byte boundary in CBC mode'')
      else Inr (concat (cbc_encrypt_blocks (AES_encrypt_block lib (cipher_key ci))
                          (cipher_iv ci) (chunks plaintext))))"

definition decrypt :: "crypto_lib \<Rightarrow> cipher \<Rightarrow> bytes \<Rightarrow> exn + bytes" where
  "decrypt lib ci ciphertext =
     (if length ciphertext mod 16 \<noteq> 0
      then Inl (ValueError ''Data must be padded to 16 byte boundary in CBC mode'')
      else Inr (concat (cbc_decrypt_blocks (AES_decrypt_block lib (cipher_key ci))
                          (cipher_iv ci) (chunks ciphertext))))"

text \<open>
  \<open>encrypt_image\<close> and \<open>decrypt_image\<close>: the whole body is inside \<open>try\<close>, and every
  exception leaves as a \<open>CryptoError\<close> whose message has the function's prefix.
\<close>

definition encrypt_image ::
    "crypto_lib \<Rightarrow> bytes \<Rightarrow> pystr \<Rightarrow> rng \<Rightarrow> (exn + bytes \<times> bytes \<times> bytes) \<times> rng" where
  "encrypt_image lib image_data password g =
     (case derive_key lib password None 200000 g of
        (Inl e, g1) \<Rightarrow> (Inl (CryptoError (''Encryption failed: '' @ str e)), g1)
      | (Inr (key, salt), g1) \<Rightarrow>
          (case urandom 16 g1 of
             (iv, g2) \<Rightarrow>
               (case AES_new key iv of
                  Inl e \<Rightarrow> (Inl (CryptoError (''Encryption failed: '' @ str e)), g2)
                | Inr ci \<Rightarrow>
                    (let padded_data = pad image_data 16
                     in case encrypt lib ci padded_data of
                          Inl e \<Rightarrow> (Inl (CryptoError (''Encryption failed: '' @ str e)), g2)
                        | Inr encrypted_data \<Rightarrow> (Inr (salt, iv, encrypted_data), g2)))))"

definition decrypt_image ::
    "crypto_lib \<Rightarrow> bytes \<Rightarrow> bytes \<Rightarrow> bytes \<Rightarrow> pystr \<Rightarrow> rng \<Rightarrow> (exn + bytes) \<times> rng" where
  "decrypt_image lib encrypted_data salt iv password g =
     (case derive_key lib password (Some salt) 200000 g of
        (Inl e, g1) \<Rightarrow> (Inl (CryptoError (''Decryption failed: '' @ str e)), g1)
      | (Inr (key, _), g1) \<Rightarrow>
          (case AES_new key iv of
             Inl e \<Rightarrow> (Inl (CryptoError (''Decryption failed: '' @ str e)), g1)
           | Inr ci \<Rightarrow>
               (case decrypt lib ci encrypted_data of
                  Inl e \<Rightarrow> (Inl (CryptoError (''Decryption failed: '' @ str e)), g1)
                | Inr decrypted_padded \<Rightarrow>
                    (case unpad decrypted_padded 16 of
                       Inl e \<Rightarrow> (Inl (CryptoError (''Decryption failed: '' @ str e)), g1)
                     | Inr decrypted_data \<Rightarrow> (Inr decrypted_data, g1)))))"

text \<open>
  What the model asks of the library: with a positive iteration count the key derivation
  returns a key of the length asked for, and under a 32-byte key the block decryption
  undoes the block encryption, which maps 16-byte blocks to 16-byte blocks.
\<close>

definition sound_library :: "crypto_lib \<Rightarrow> bool" where
  "sound_library lib \<longleftrightarrow>
     (\<forall>pw salt dk n. 0 < n \<longrightarrow> (\<exists>key. PBKDF2 lib pw salt dk n = Inr key \<and> length key = dk)) \<and>
     (\<forall>k b. length k = 32 \<and> length b = 16 \<longrightarrow>
        length (AES_encrypt_block lib k b) = 16 \<and>
        AES_decrypt_block lib k (AES_encrypt_block lib k b) = b)"

text \<open>
  An instance of the library for evaluation at concrete inputs: the key is read off the
  salt and the password, and a block is XORed with the first 16 bytes of the key.
\<close>

definition toy_lib :: crypto_lib where
  "toy_lib =
     \<lparr>PBKDF2 = (\<lambda>pw salt dk n.
          if n \<le> 0 then Inl (ValueError ''count must be positive'')
          else Inr (take dk (salt @ pw @ replicate dk 0))),
      AES_encrypt_block = (\<lambda>k b. xor_bytes b (take 16 k)),
      AES_decrypt_block = (\<lambda>k b. xor_bytes b (take 16 k))\<rparr>"

text \<open>The key of a \<open>derive_key\<close> result (\<open>key, _ = derive_key(...)\<close>), or its exception.\<close>

definition derived_key :: "(exn + bytes \<times> bytes) \<times> rng \<Rightarrow> exn + bytes" where
  "derived_key r = (case fst r of Inl e \<Rightarrow> Inl e | Inr (key, salt) \<Rightarrow> Inr key)"

text \<open>
  Two states of the random source, for evaluation at concrete inputs. The passwords used
  there are \<open>[112, 119]\<close>, the \<open>str\<close> \<open>pw\<close>, \<open>[115, 101, 99, 114, 101, 116]\<close>, the \<open>str\<close>
  \<open>secret\<close>, and \<open>[0xD800]\<close>, the \<open>str\<close> of one surrogate.
\<close>

definition zeros :: rng where
  "zeros i = 0"

definition counting :: rng where
  "counting i = of_nat i"

section \<open>Floating-point values of the analysis (analysis.py)\<close>

text \<open>
  The numbers of analysis.py are NumPy floats. A finite value is modelled by the real
  number it stands for (the two zeros are one value); the infinities and NaN are values
  of their own, since NumPy's division by zero returns them with a warning where Python's
  own floats would raise. Comparisons with NaN are false. The double-precision
  operations of the entropy and of the correlations are taken without rounding; the
  single-precision operations of \<open>calculate_npcr_uaci\<close> round, as described below.
\<close>

datatype npfloat = Fin real | PosInf | NegInf | NaN

fun np_neg :: "npfloat \<Rightarrow> npfloat" where
  "np_neg (Fin a) = Fin (- a)"
| "np_neg PosInf = NegInf"
| "np_neg NegInf = PosInf"
| "np_neg NaN = NaN"

fun np_abs :: "npfloat \<Rightarrow> npfloat" where
  "np_abs (Fin a) = Fin \<bar>a\<bar>"
| "np_abs PosInf = PosInf"
| "np_abs NegInf = PosInf"
| "np_abs NaN = NaN"

fun np_add :: "npfloat \<Rightarrow> npfloat \<Rightarrow> npfloat" where
  "np_add (Fin a) (Fin b) = Fin (a + b)"
| "np_add NaN y = NaN"
| "np_add x NaN = NaN"
| "np_add PosInf NegInf = NaN"
| "np_add NegInf PosInf = NaN"
| "np_add PosInf y = PosInf"
| "np_add NegInf y = NegInf"
| "np_add x PosInf = PosInf"
| "np_add x NegInf = NegInf"

fun np_mul :: "npfloat \<Rightarrow> npfloat \<Rightarrow> npfloat" where
  "np_mul (Fin a) (Fin b) = Fin (a * b)"
| "np_mul NaN y = NaN"
| "np_mul x NaN = NaN"
| "np_mul (Fin a) PosInf = (if a = 0 then NaN else if 0 < a then PosInf else NegInf)"
| "np_mul (Fin a) NegInf = (if a = 0 then NaN else if 0 < a then NegInf else PosInf)"
| "np_mul PosInf (Fin b) = (if b = 0 then NaN else if 0 < b then PosInf else NegInf)"
| "np_mul NegInf (Fin b) = (if b = 0 then NaN else if 0 < b then NegInf else PosInf)"
| "np_mul PosInf PosInf = PosInf"
| "np_mul NegInf NegInf = PosInf"
| "np_mul PosInf NegInf = NegInf"
| "np_mul NegInf PosInf = NegInf"

text \<open>
  Division: a finite value divided by zero is NaN for \<open>0 / 0\<close> and an infinity
  otherwise (the divisors of analysis.py are counts, so the zero is the positive one).
\<close>

fun np_div :: "npfloat \<Rightarrow> npfloat \<Rightarrow> npfloat" where
  "np_div (Fin a) (Fin b) =
     (if b \<noteq> 0 then Fin (a / b) else if a = 0 then NaN else if 0 < a then PosInf else NegInf)"
| "np_div NaN y = NaN"
| "np_div x NaN = NaN"
| "np_div (Fin a) PosInf = Fin 0"
| "np_div (Fin a) NegInf = Fin 0"
| "np_div PosInf (Fin b) = (if 0 \<le> b then PosInf else NegInf)"
| "np_div NegInf (Fin b) = (if 0 \<le> b then NegInf else PosInf)"
| "np_div x y = NaN"

fun np_log2 :: "npfloat \<Rightarrow> npfloat" where
  "np_log2 (Fin a) = (if 0 < a then Fin (log 2 a) else if a = 0 then NegInf else NaN)"
| "np_log2 PosInf = PosInf"
| "np_log2 NegInf = NaN"
| "np_log2 NaN = NaN"

fun np_less :: "npfloat \<Rightarrow> npfloat \<Rightarrow> bool" where
  "np_less (Fin a) (Fin b) = (a < b)"
| "np_less NaN y = False"
| "np_less x NaN = False"
| "np_less x NegInf = False"
| "np_less PosInf y = False"
| "np_less NegInf y = True"
| "np_less x PosInf = True"

definition np_gt :: "npfloat \<Rightarrow> npfloat \<Rightarrow> bool" where
  "np_gt x y = np_less y x"

definition np_le :: "npfloat \<Rightarrow> npfloat \<Rightarrow> bool" where
  "np_le x y = (np_less x y \<or> (x = y \<and> x \<noteq> NaN))"

definition np_sum :: "npfloat list \<Rightarrow> npfloat" where
  "np_sum xs = foldl np_add (Fin 0) xs"

definition np_mean :: "npfloat list \<Rightarrow> npfloat" where
  "np_mean xs = np_div (np_sum xs) (Fin (real (length xs)))"

definition to_float :: "byte \<Rightarrow> npfloat" where
  "to_float b = Fin (real (unat b))"

section \<open>Rounding\<close>

text \<open>
  \<open>calculate_npcr_uaci\<close> works on \<open>float32\<close> arrays. NumPy's arithmetic is not part of
  the repository, and two things in it are not fixed by the source: the order in which
  \<open>np.sum\<close> adds the elements of an array, and the precision of an operation between a
  \<open>float32\<close> scalar and a Python number, which is single precision under the promotion
  rules of NumPy 2 and double precision before. Both are parameters of the model:
  \<open>array_sum\<close> is \<open>np.sum\<close> on a \<open>float32\<close> array of finite values, and
  \<open>scalar_round\<close> rounds the exact result of a scalar operation, and a Python number
  that enters one, to the precision in which the operation is carried out. Overflow is
  not modelled: the values of \<open>calculate_npcr_uaci\<close> are far below the largest
  \<open>float32\<close>.
\<close>

record float_lib =
  array_sum :: "real list \<Rightarrow> real"
  scalar_round :: "real \<Rightarrow> real"

text \<open>
  The product of a Python number and a NumPy scalar, and the quotient of a NumPy scalar
  by a Python number. A division by zero gives NaN or an infinity, with a warning.
\<close>

definition scalar_mul :: "float_lib \<Rightarrow> real \<Rightarrow> real \<Rightarrow> real" where
  "scalar_mul F a b = scalar_round F (scalar_round F a * b)"

definition scalar_div :: "float_lib \<Rightarrow> real \<Rightarrow> real \<Rightarrow> npfloat" where
  "scalar_div F a b =
     (let b' = scalar_round F b
      in if b' = 0 then (if a = 0 then NaN else if 0 < a then PosInf else NegInf)
         else Fin (scalar_round F (a / b')))"

text \<open>
  What the model asks of the arithmetic, and what holds of IEEE single and double
  precision with any order of summation: the natural numbers up to \<open>2 ^ 24\<close> are
  represented exactly, a positive integer is rounded to a positive number, rounding
  within the normal range has a relative error of at most \<open>2 ^ -24\<close>, and a sum of
  natural numbers whose total is at most \<open>2 ^ 24\<close> is exact.
\<close>

definition ieee_arithmetic :: "float_lib \<Rightarrow> bool" where
  "ieee_arithmetic F \<longleftrightarrow>
     (\<forall>k::nat. k \<le> 2 ^ 24 \<longrightarrow> scalar_round F (real k) = real k) \<and>
     (\<forall>k::nat. 0 < k \<longrightarrow> 0 < scalar_round F (real k)) \<and>
     (\<forall>x. 1 / 2 ^ 126 \<le> \<bar>x\<bar> \<and> \<bar>x\<bar> \<le> 2 ^ 127 \<longrightarrow>
          \<bar>scalar_round F x - x\<bar> \<le> \<bar>x\<bar> / 2 ^ 24) \<and>
     (\<forall>ks::nat list. sum_list ks \<le> 2 ^ 24 \<longrightarrow>
          array_sum F (map real ks) = real (sum_list ks))"

text \<open>
  Single precision, the arithmetic of NumPy 2: rounding to the nearest number with a
  significand of 24 bits, ties to the even one, with the gradual underflow below
  \<open>2 ^ -126\<close>; the sum adds from left to right and rounds after each addition.
\<close>

definition round_half_even :: "real \<Rightarrow> int" where
  "round_half_even y =
     (let f = \<lfloor>y\<rfloor>; d = y - of_int f
      in if d < 1 / 2 then f else if 1 / 2 < d then f + 1 else if even f then f else f + 1)"

definition pow2 :: "int \<Rightarrow> real" where
  "pow2 e = (if 0 \<le> e then 2 ^ nat e else 1 / 2 ^ nat (- e))"

definition float32_round :: "real \<Rightarrow> real" where
  "float32_round x =
     (if x = 0 then 0
      else let e = max \<lfloor>log 2 \<bar>x\<bar>\<rfloor> (- 126); ulp = pow2 (e - 23)
           in of_int (round_half_even (x / ulp)) * ulp)"

definition single_precision :: float_lib where
  "single_precision =
     \<lparr>array_sum = foldl (\<lambda>a x. float32_round (a + x)) 0, scalar_round = float32_round\<rparr>"

section \<open>Arrays\<close>

text \<open>
  A \<open>uint8\<close> array: its shape and its elements in row-major order.
  \<open>np.frombuffer(data, dtype=np.uint8).reshape(-1, 1)\<close> is the one-column array of
  the bytes; it exists for every buffer, the empty one included.
\<close>

record ndarray =
  shape :: "nat list"
  elems :: bytes

definition array_size :: "ndarray \<Rightarrow> nat" where
  "array_size a = prod_list (shape a)"

definition wf_array :: "ndarray \<Rightarrow> bool" where
  "wf_array a \<longleftrightarrow> length (elems a) = array_size a"

definition reshape_column :: "bytes \<Rightarrow> ndarray" where
  "reshape_column data = \<lparr>shape = [length data, 1], elems = data\<rparr>"

text \<open>The rows of an \<open>h\<close> by \<open>w\<close> array given in row-major order.\<close>

definition rows_of :: "nat \<Rightarrow> nat \<Rightarrow> 'a list \<Rightarrow> 'a list list" where
  "rows_of h w xs = map (\<lambda>r. take w (drop (r * w) xs)) [0..<h]"

section \<open>The statistical analysis (analysis.py)\<close>

text \<open>\<open>np.bincount(..., minlength=256)\<close> on bytes: the count of each of the 256 values.\<close>

definition bincount :: "bytes \<Rightarrow> nat list" where
  "bincount xs = map (\<lambda>v. count_list xs (of_nat v)) [0..<256]"

text \<open>
  \<open>calculate_entropy\<close>. No step of the body raises: on the empty buffer the division
  of the histogram by \<open>len(data)\<close> is NumPy's, which gives NaN for \<open>0 / 0\<close>, and the
  NaN entries are dropped by the selection \<open>prob > 0\<close>.
\<close>

definition calculate_entropy :: "bytes \<Rightarrow> exn + npfloat" where
  "calculate_entropy data =
     (let freq = bincount data;
          prob = map (\<lambda>f. np_div (Fin (real f)) (Fin (real (length data)))) freq;
          prob' = filter (\<lambda>p. np_gt p (Fin 0)) prob;
          entropy = np_neg (np_sum (map (\<lambda>p. np_mul p (np_log2 p)) prob'))
      in Inr entropy)"

text \<open>
  \<open>np.corrcoef(x, y)[0, 1]\<close> for two vectors of one length: the covariance matrix with
  \<open>N - 1\<close> degrees of freedom, divided by the two standard deviations and clipped to
  \<open>[-1, 1]\<close>. With fewer than two samples, with a NaN sample or with a zero variance the
  quotient is \<open>0 / 0\<close> or \<open>0 * inf\<close>, that is NaN.
\<close>

fun is_fin :: "npfloat \<Rightarrow> bool" where
  "is_fin (Fin a) = True"
| "is_fin x = False"

fun the_fin :: "npfloat \<Rightarrow> real" where
  "the_fin (Fin a) = a"
| "the_fin x = 0"

definition mean_r :: "real list \<Rightarrow> real" where
  "mean_r xs = sum_list xs / real (length xs)"

definition cov_r :: "real list \<Rightarrow> real list \<Rightarrow> real" where
  "cov_r xs ys =
     sum_list (map2 (\<lambda>x y. (x - mean_r xs) * (y - mean_r ys)) xs ys) / (real (length xs) - 1)"

definition corrcoef :: "npfloat list \<Rightarrow> npfloat list \<Rightarrow> npfloat" where
  "corrcoef x y =
     (if length x < 2 \<or> \<not> list_all is_fin (x @ y) then NaN
      else
        let xs = map the_fin x; ys = map the_fin y;
            cxx = cov_r xs xs; cyy = cov_r ys ys; cxy = cov_r xs ys
        in if cxx = 0 \<or> cyy = 0 then NaN
           else Fin (max (- 1) (min 1 (cxy / sqrt cxx / sqrt cyy))))"

record correlations =
  horizontal :: npfloat
  vertical :: npfloat
  diagonal :: npfloat

definition calculate_direction_correlation ::
    "npfloat list list \<Rightarrow> npfloat list list \<Rightarrow> npfloat" where
  "calculate_direction_correlation x y = corrcoef (concat x) (concat y)"

text \<open>
  The three correlations of a two-dimensional image given by its rows: \<open>image[:, :-1]\<close>
  against \<open>image[:, 1:]\<close>, \<open>image[:-1, :]\<close> against \<open>image[1:, :]\<close>, and
  \<open>image[:-1, :-1]\<close> against \<open>image[1:, 1:]\<close>.
\<close>

definition direction_correlations :: "npfloat list list \<Rightarrow> correlations" where
  "direction_correlations img =
     \<lparr>horizontal = calculate_direction_correlation (map butlast img) (map tl img),
      vertical = calculate_direction_correlation (butlast img) (tl img),
      diagonal = calculate_direction_correlation (map butlast (butlast img)) (map tl (tl img))\<rparr>"

text \<open>
  \<open>calculate_correlation\<close>. An array of more than two dimensions is first averaged over
  its third axis; \<open>h, w = image.shape\<close> then raises unless two dimensions are left, and
  the exception leaves as an \<open>AnalysisError\<close>.
\<close>

definition calculate_correlation :: "ndarray \<Rightarrow> exn + correlations" where
  "calculate_correlation img =
     (case shape img of
        [h, w] \<Rightarrow> Inr (direction_correlations (rows_of h w (map to_float (elems img))))
      | [h, w, c] \<Rightarrow>
          Inr (direction_correlations (rows_of h w
                 (map (\<lambda>i. np_mean (map to_float (take c (drop (i * c) (elems img)))))
                      [0..<h * w])))
      | [] \<Rightarrow> Inl (AnalysisError
          ''Correlation calculation failed: not enough values to unpack (expected 2, got 0)'')
      | [n] \<Rightarrow> Inl (AnalysisError
          ''Correlation calculation failed: not enough values to unpack (expected 2, got 1)'')
      | _ \<Rightarrow> Inl (AnalysisError
          ''Correlation calculation failed: too many values to unpack (expected 2)''))"

record metrics =
  npcr :: npfloat
  uaci :: npfloat

text \<open>
  \<open>calculate_npcr_uaci\<close>. The \<open>AnalysisError\<close> of the shape check is raised inside the
  \<open>try\<close> and wrapped again. Both arrays are converted to \<open>float32\<close>, which is exact
  for bytes and for their differences; the sums are \<open>np.sum\<close> on \<open>float32\<close> arrays,
  and each sum is multiplied by \<open>100.0\<close> and divided by a Python number:
  \<open>diff_array.size\<close> for NPCR and the product \<open>255.0 * diff_array.size\<close>, itself a
  Python float, for UACI. The two quotients are NumPy's, so they do not raise when the
  arrays are empty.
\<close>

definition calculate_npcr_uaci :: "float_lib \<Rightarrow> ndarray \<Rightarrow> ndarray \<Rightarrow> exn + metrics" where
  "calculate_npcr_uaci F original encrypted =
     (if shape original \<noteq> shape encrypted
      then Inl (AnalysisError
             (''NPCR/UACI calculation failed: '' @ ''Images must have the same dimensions''))
      else
        let diff_array = map2 (\<lambda>a b. if a \<noteq> b then 1 else 0)
                           (elems original) (elems encrypted);
            n = array_size original;
            npcr = scalar_div F (scalar_mul F 100 (array_sum F diff_array)) (real n);
            uaci = scalar_div F
                     (scalar_mul F 100
                        (array_sum F (map2 (\<lambda>a b. \<bar>real (unat a) - real (unat b)\<bar>)
                                        (elems original) (elems encrypted))))
                     (255 * real n)
        in Inr \<lparr>npcr = npcr, uaci = uaci\<rparr>)"

text \<open>
  The two quantities of the specification's formulas for NPCR and UACI, over the positions
  \<open>0 .. size - 1\<close> of two arrays in row-major order: the number of positions where the
  values differ, and the sum of the absolute differences of the values.
\<close>

definition differing_positions :: "ndarray \<Rightarrow> ndarray \<Rightarrow> nat" where
  "differing_positions a b =
     length (filter (\<lambda>i. elems a ! i \<noteq> elems b ! i) [0..<array_size a])"

definition sum_abs_differences :: "ndarray \<Rightarrow> ndarray \<Rightarrow> nat" where
  "sum_abs_differences a b =
     sum_list (map (\<lambda>i. nat \<bar>int (unat (elems a ! i)) - int (unat (elems b ! i))\<bar>)
                 [0..<array_size a])"

datatype verdict = Strong | Moderate | Weak

text \<open>
  The scoring of \<open>analyze_encryption_strength\<close>: the score starts at 0 and each of the
  three checks adds 2, 1 or nothing.
\<close>

definition avg_correlation :: "correlations \<Rightarrow> npfloat" where
  "avg_correlation c = np_mean [np_abs (horizontal c), np_abs (vertical c), np_abs (diagonal c)]"

definition strength_score :: "npfloat \<Rightarrow> npfloat \<Rightarrow> npfloat \<Rightarrow> nat" where
  "strength_score entropy avg npcr_value =
     (let s0 = 0;
          s1 = (if np_gt entropy (Fin 7.9) then s0 + 2
                else if np_gt entropy (Fin 7.5) then s0 + 1 else s0);
          s2 = (if np_less avg (Fin 0.1) then s1 + 2
                else if np_less avg (Fin 0.3) then s1 + 1 else s1);
          s3 = (if np_gt npcr_value (Fin 99) then s2 + 2
                else if np_gt npcr_value (Fin 90) then s2 + 1 else s2)
      in s3)"

definition verdict_of :: "nat \<Rightarrow> verdict" where
  "verdict_of strength_score_value =
     (if strength_score_value \<ge> 5 then Strong
      else if strength_score_value \<ge> 3 then Moderate
      else Weak)"

record analysis_result = metrics +
  entropy :: npfloat
  correlations :: correlations
  verdict :: verdict

definition analyze_encryption_strength ::
    "float_lib \<Rightarrow> bytes \<Rightarrow> bytes \<Rightarrow> exn + analysis_result" where
  "analyze_encryption_strength F original_data encrypted_data =
     (case calculate_entropy encrypted_data of
        Inl e \<Rightarrow> Inl (AnalysisError (''Encryption strength analysis failed: '' @ str e))
      | Inr ent \<Rightarrow>
          (let orig_array = reshape_column original_data;
               enc_array = reshape_column encrypted_data
           in case calculate_correlation enc_array of
                Inl e \<Rightarrow> Inl (AnalysisError (''Encryption strength analysis failed: '' @ str e))
              | Inr cors \<Rightarrow>
                  (case calculate_npcr_uaci F orig_array enc_array of
                     Inl e \<Rightarrow>
                       Inl (AnalysisError (''Encryption strength analysis failed: '' @ str e))
                   | Inr m \<Rightarrow>
                       Inr \<lparr>npcr = npcr m, uaci = uaci m, entropy = ent, correlations = cors,
                            verdict = verdict_of
                              (strength_score ent (avg_correlation cors) (npcr m))\<rparr>)))"

text \<open>
  The scoring table as the specification words it, row by row, with the intervals of
  its second, fourth and sixth rows written out.
\<close>

definition spec_table_score :: "npfloat \<Rightarrow> npfloat \<Rightarrow> npfloat \<Rightarrow> nat" where
  "spec_table_score e c n =
     (if np_gt e (Fin 7.9) then 2 else 0) +
     (if np_less (Fin 7.5) e \<and> np_le e (Fin 7.9) then 1 else 0) +
     (if np_less c (Fin 0.1) then 2 else 0) +
     (if np_le (Fin 0.1) c \<and> np_less c (Fin 0.3) then 1 else 0) +
     (if np_gt n (Fin 99) then 2 else 0) +
     (if np_less (Fin 90) n \<and> np_le n (Fin 99) then 1 else 0)"

section \<open>Properties of the container codec\<close>

lemma slice_nth: "j \<le> length xs \<Longrightarrow> slice i j xs = map (\<lambda>k. xs ! k) [i..<j]"
proof (cases "i \<le> j")
  case True
  assume j: "j \<le> length xs"
  show ?thesis
  proof (rule nth_equalityI)
    show "length (slice i j xs) = length (map (\<lambda>k. xs ! k) [i..<j])"
      using True j by (simp add: slice_def)
  next
    fix k assume "k < length (slice i j xs)"
    then have "k < j - i" by (simp add: slice_def)
    then show "slice i j xs ! k = map (\<lambda>k. xs ! k) [i..<j] ! k"
      using True j by (simp add: slice_def)
  qed
next
  case False
  then show ?thesis by (simp add: slice_def)
qed

lemma drop_nth: "drop i xs = map (\<lambda>k. xs ! k) [i..<length xs]"
  by (rule nth_equalityI) simp_all

text \<open>
  C6. Splitting the concatenation of a 16-byte salt, a 16-byte IV and any ciphertext
  (the empty one included) gives the three parts back.
\<close>

theorem split_combine:
  assumes "length s = 16" and "length i = 16"
  shows "split_encrypted_data (combine_encrypted_data s i c) = Inr (s, i, c)"
  using assms by (simp add: split_encrypted_data_def combine_encrypted_data_def slice_def)

theorem split_combine_witness:
  "length (replicate 16 (7::byte)) = 16 \<and> length (replicate 16 (9::byte)) = 16 \<and>
   split_encrypted_data (combine_encrypted_data (replicate 16 7) (replicate 16 9) []) =
     Inr (replicate 16 7, replicate 16 9, [])"
  using split_combine [of "replicate 16 (7::byte)" "replicate 16 (9::byte)" "[]"] by simp

text \<open>
  C7. \<open>split_encrypted_data\<close> fails exactly on the buffers shorter than 32 bytes, with
  the module's \<open>CryptoError\<close> (the malformed-container failure); on every longer buffer
  it returns bytes 0 to 15 as the salt, bytes 16 to 31 as the IV and the bytes from 32 on
  as the ciphertext.
\<close>

theorem split_fails_iff_short:
  "(isl (split_encrypted_data d) \<longleftrightarrow> length d < 32) \<and>
   (length d < 32 \<longrightarrow>
      split_encrypted_data d = Inl (CryptoError ''Invalid encrypted data format'')) \<and>
   (32 \<le> length d \<longrightarrow>
      split_encrypted_data d =
        Inr (map (\<lambda>k. d ! k) [0..<16], map (\<lambda>k. d ! k) [16..<32],
             map (\<lambda>k. d ! k) [32..<length d]))"
  by (simp add: split_encrypted_data_def slice_nth drop_nth [of 32 d])

theorem split_fails_iff_short_witness:
  "(isl (split_encrypted_data (replicate 31 (1::byte))) \<longleftrightarrow>
      length (replicate 31 (1::byte)) < 32) \<and>
   length (replicate 31 (1::byte)) < 32 \<and>
   split_encrypted_data (replicate 31 1) = Inl (CryptoError ''Invalid encrypted data format'') \<and>
   32 \<le> length (replicate 33 (2::byte)) \<and>
   split_encrypted_data (replicate 33 2) =
     Inr (map (\<lambda>k. replicate 33 2 ! k) [0..<16], map (\<lambda>k. replicate 33 2 ! k) [16..<32],
          map (\<lambda>k. replicate 33 2 ! k) [32..<length (replicate 33 (2::byte))])"
  using split_fails_iff_short [of "replicate 31 (1::byte)"]
    split_fails_iff_short [of "replicate 33 (2::byte)"]
  by simp

section \<open>Padding, blocks and CBC\<close>

lemma length_pad: "length (pad xs 16) = 16 * (length xs div 16 + 1)"
proof -
  define q m where "q = length xs div 16" and "m = length xs mod 16"
  have "length xs = 16 * q + m" and "m < 16" by (simp_all add: q_def m_def)
  then have "length xs + (16 - m) = 16 * (q + 1)" by arith
  then have "length xs + (16 - length xs mod 16) = 16 * (length xs div 16 + 1)"
    by (simp only: q_def m_def)
  then show ?thesis by (simp add: pad_def Let_def)
qed

lemma unpad_pad: "unpad (pad xs 16) 16 = Inr xs"
proof -
  define k where "k = 16 - length xs mod 16"
  define ys where "ys = pad xs 16"
  have k: "1 \<le> k" "k \<le> 16" by (simp_all add: k_def)
  have p: "ys = xs @ replicate k (of_nat k)" by (simp add: ys_def pad_def k_def)
  have len: "length ys mod 16 = 0" unfolding ys_def by (simp add: length_pad)
  have u: "unat (of_nat k :: byte) = k" using k by (simp add: unat_of_nat)
  have l: "unat (last ys) = k" using k u by (simp add: p)
  have le: "k \<le> length ys" by (simp add: p)
  have ne: "length ys \<noteq> 0" using k by (simp add: p)
  have d: "drop (length ys - k) ys = replicate k (of_nat k)" by (simp add: p)
  have t: "take (length ys - k) ys = xs" by (simp add: p)
  have "unpad ys 16 = Inr xs"
    unfolding unpad_def Let_def l using ne len k le d t by simp
  then show ?thesis by (simp add: ys_def)
qed

lemma chunks_Nil: "chunks [] = []"
  by (simp add: chunks.simps)

lemma chunks_append: "length b = 16 \<Longrightarrow> chunks (b @ xs) = b # chunks xs"
  by (subst chunks.simps) auto

lemma chunks_concat: "\<forall>b\<in>set bs. length b = 16 \<Longrightarrow> chunks (concat bs) = bs"
  by (induction bs) (simp_all add: chunks_Nil chunks_append)

lemma concat_chunks: "concat (chunks xs) = xs"
proof (induction xs rule: chunks.induct)
  case (1 xs)
  show ?case
  proof (cases "xs = []")
    case True
    then show ?thesis by (simp add: chunks_Nil)
  next
    case False
    with "1.IH" have "concat (chunks (drop 16 xs)) = drop 16 xs" by simp
    with False show ?thesis by (subst chunks.simps) simp
  qed
qed

lemma drop16_mod:
  assumes m: "length xs mod 16 = 0" and ne: "xs \<noteq> []"
  shows "16 \<le> length xs \<and> length (drop 16 xs) mod 16 = 0"
proof -
  from m obtain q where q: "length xs = 16 * q" by (auto simp: mod_eq_0_iff_dvd)
  have "q \<noteq> 0"
  proof
    assume "q = 0"
    with q have "length xs = 0" by simp
    with ne show False by simp
  qed
  then obtain r where r: "q = Suc r" by (cases q) auto
  have l: "length xs = 16 + 16 * r" using q r by simp
  have "length (drop 16 xs) = 16 * r" by (simp add: l)
  then have "length (drop 16 xs) mod 16 = 0" by (simp only: mod_mult_self1_is_0)
  moreover have "16 \<le> length xs" by (simp only: l le_add1)
  ultimately show ?thesis by (rule_tac conjI)
qed

lemma chunks_length: "length xs mod 16 = 0 \<Longrightarrow> \<forall>b\<in>set (chunks xs). length b = 16"
proof (induction xs rule: chunks.induct)
  case (1 xs)
  show ?case
  proof (cases "xs = []")
    case True
    then show ?thesis by (simp add: chunks_Nil)
  next
    case False
    from drop16_mod [OF "1.prems" False]
    have ge: "16 \<le> length xs" and m: "length (drop 16 xs) mod 16 = 0" by blast+
    from "1.IH" [OF False m] have ih: "\<forall>b\<in>set (chunks (drop 16 xs)). length b = 16" .
    have c: "chunks xs = take 16 xs # chunks (drop 16 xs)"
      using False chunks.simps [of xs] by (simp only: if_False)
    have "length (take 16 xs) = 16" using ge by simp
    with ih show ?thesis by (simp only: c set_simps ball_simps)
  qed
qed

lemma xor_bytes_length: "length a = length b \<Longrightarrow> length (xor_bytes a b) = length a"
  by (simp add: xor_bytes_def)

lemma xor_bytes_cancel: "length a = length b \<Longrightarrow> xor_bytes (xor_bytes a b) b = a"
  unfolding xor_bytes_def
  by (induction a b rule: list_induct2) (simp_all add: xor.assoc)

lemma cbc_encrypt_blocks_length:
  assumes E: "\<And>b. length b = 16 \<Longrightarrow> length (E b) = 16"
  shows "length prev = 16 \<Longrightarrow> \<forall>b\<in>set ps. length b = 16 \<Longrightarrow>
         \<forall>c\<in>set (cbc_encrypt_blocks E prev ps). length c = 16"
proof (induction ps arbitrary: prev)
  case Nil
  show ?case by simp
next
  case (Cons p ps)
  have lp: "length p = 16" using Cons.prems(2) by simp
  have lx: "length (xor_bytes p prev) = 16"
    using lp Cons.prems(1) by (simp add: xor_bytes_length)
  have lc: "length (E (xor_bytes p prev)) = 16" by (rule E [OF lx])
  have "\<forall>c\<in>set (cbc_encrypt_blocks E (E (xor_bytes p prev)) ps). length c = 16"
    using Cons.IH [OF lc] Cons.prems(2) by simp
  with lc show ?case by (simp add: Let_def)
qed

lemma cbc_encrypt_blocks_count: "length (cbc_encrypt_blocks E prev ps) = length ps"
  by (induction ps arbitrary: prev) (simp_all add: Let_def)

lemma cbc_decrypt_encrypt_blocks:
  assumes E: "\<And>b. length b = 16 \<Longrightarrow> length (E b) = 16"
      and D: "\<And>b. length b = 16 \<Longrightarrow> D (E b) = b"
  shows "length prev = 16 \<Longrightarrow> \<forall>b\<in>set ps. length b = 16 \<Longrightarrow>
         cbc_decrypt_blocks D prev (cbc_encrypt_blocks E prev ps) = ps"
proof (induction ps arbitrary: prev)
  case Nil
  show ?case by simp
next
  case (Cons p ps)
  have lp: "length p = 16" using Cons.prems(2) by simp
  have lx: "length (xor_bytes p prev) = 16"
    using lp Cons.prems(1) by (simp add: xor_bytes_length)
  have lc: "length (E (xor_bytes p prev)) = 16" by (rule E [OF lx])
  have x: "xor_bytes (D (E (xor_bytes p prev))) prev = p"
    using D [OF lx] lp Cons.prems(1) by (simp add: xor_bytes_cancel)
  have "cbc_decrypt_blocks D (E (xor_bytes p prev)) (cbc_encrypt_blocks E (E (xor_bytes p prev)) ps) = ps"
    using Cons.IH [OF lc] Cons.prems(2) by simp
  with x show ?case by (simp add: Let_def)
qed

lemma length_concat_blocks: "\<forall>b\<in>set bs. length b = 16 \<Longrightarrow> length (concat bs) = 16 * length bs"
  by (induction bs) simp_all

lemma encrypt_ok:
  assumes E: "\<And>b. length b = 16 \<Longrightarrow> length (AES_encrypt_block lib (cipher_key ci) b) = 16"
      and iv: "length (cipher_iv ci) = 16" and m: "length xs mod 16 = 0"
  shows "\<exists>ct. encrypt lib ci xs = Inr ct \<and> length ct = length xs \<and>
           chunks ct = cbc_encrypt_blocks (AES_encrypt_block lib (cipher_key ci)) (cipher_iv ci) (chunks xs)"
proof -
  let ?bs = "cbc_encrypt_blocks (AES_encrypt_block lib (cipher_key ci)) (cipher_iv ci) (chunks xs)"
  have ps: "\<forall>b\<in>set (chunks xs). length b = 16" by (rule chunks_length [OF m])
  have cs: "\<forall>c\<in>set ?bs. length c = 16"
    by (rule cbc_encrypt_blocks_length [OF E iv ps])
  have "length (concat ?bs) = 16 * length (chunks xs)"
    using length_concat_blocks [OF cs] by (simp add: cbc_encrypt_blocks_count)
  also have "\<dots> = length (concat (chunks xs))"
    using length_concat_blocks [OF ps] by simp
  finally have l: "length (concat ?bs) = length xs" by (simp add: concat_chunks)
  have c: "chunks (concat ?bs) = ?bs" by (rule chunks_concat [OF cs])
  show ?thesis using m l c by (simp add: encrypt_def)
qed

lemma decrypt_encrypt:
  assumes E: "\<And>b. length b = 16 \<Longrightarrow> length (AES_encrypt_block lib (cipher_key ci) b) = 16"
      and D: "\<And>b. length b = 16 \<Longrightarrow>
                AES_decrypt_block lib (cipher_key ci) (AES_encrypt_block lib (cipher_key ci) b) = b"
      and iv: "length (cipher_iv ci) = 16" and m: "length xs mod 16 = 0"
      and e: "encrypt lib ci xs = Inr ct"
  shows "decrypt lib ci ct = Inr xs"
proof -
  from encrypt_ok [OF E iv m] e
  have l: "length ct = length xs"
   and c: "chunks ct = cbc_encrypt_blocks (AES_encrypt_block lib (cipher_key ci)) (cipher_iv ci) (chunks xs)"
    by auto
  have ps: "\<forall>b\<in>set (chunks xs). length b = 16" by (rule chunks_length [OF m])
  have "cbc_decrypt_blocks (AES_decrypt_block lib (cipher_key ci)) (cipher_iv ci) (chunks ct) = chunks xs"
    unfolding c by (rule cbc_decrypt_encrypt_blocks [OF E D iv ps])
  then show ?thesis using m l by (simp add: decrypt_def concat_chunks)
qed

lemma toy_lib_sound: "sound_library toy_lib"
proof -
  have k: "\<And>(pw::bytes) (salt::bytes) dk. length (take dk (salt @ pw @ replicate dk 0)) = dk"
    by simp
  have e: "\<And>(k::bytes) (b::bytes). length k = 32 \<Longrightarrow> length b = 16 \<Longrightarrow>
      length (xor_bytes b (take 16 k)) = 16 \<and> xor_bytes (xor_bytes b (take 16 k)) (take 16 k) = b"
    by (simp add: xor_bytes_length xor_bytes_cancel)
  show ?thesis
    unfolding sound_library_def toy_lib_def using k e by simp
qed

lemma urandom_length: "urandom n g = (bs, g') \<Longrightarrow> length bs = n"
  by (auto simp: urandom_def)

lemma takeWhile_all: "(\<forall>c\<in>set s. P c) \<Longrightarrow> takeWhile P s = s"
  by (induction s) auto

lemma takeWhile_not_all: "\<not> (\<forall>c\<in>set s. P c) \<Longrightarrow> length (takeWhile P s) < length s"
  by (induction s) auto

lemma encode_encodable: "encodable s \<Longrightarrow> encode s = Inr (utf8 s)"
  by (simp add: encode_def encodable_def takeWhile_all Let_def)

lemma encode_not_encodable: "\<not> encodable s \<Longrightarrow> isl (encode s)"
proof -
  assume "\<not> encodable s"
  then have "length (takeWhile (\<lambda>c. \<not> is_surrogate c) s) < length s"
    unfolding encodable_def by (rule takeWhile_not_all)
  then show ?thesis by (simp add: encode_def Let_def)
qed

lemma decimal_digit: "n < 10 \<Longrightarrow> decimal n = [digit_char n]"
  by (simp add: decimal.simps)

lemma derive_key_fresh:
  assumes lib: "sound_library lib" and pw: "password \<noteq> []" and enc: "encodable password"
      and n: "0 < n" and u: "urandom 16 g = (salt, g1)"
  shows "\<exists>key. derive_key lib password None n g = (Inr (key, salt), g1) \<and> length key = 32 \<and>
           PBKDF2 lib (utf8 password) salt 32 n = Inr key"
proof -
  from lib n obtain key where k: "PBKDF2 lib (utf8 password) salt 32 n = Inr key"
    and l: "length key = 32"
    unfolding sound_library_def by blast
  have "derive_key lib password None n g = (Inr (key, salt), g1)"
    using pw k u by (simp add: derive_key_def encode_encodable [OF enc])
  with k l show ?thesis by blast
qed

lemma derive_key_given:
  assumes pw: "password \<noteq> []" and enc: "encodable password" and s: "salt \<noteq> []"
      and k: "PBKDF2 lib (utf8 password) salt 32 n = Inr key"
  shows "derive_key lib password (Some salt) n g = (Inr (key, salt), g)"
  using pw s k by (simp add: derive_key_def encode_encodable [OF enc])

lemma derive_key_Inr:
  assumes "derive_key lib password salt n g = (Inr x, g')"
  shows "password \<noteq> [] \<and> encodable password"
proof -
  have "password \<noteq> []" using assms by (auto simp add: derive_key_def Let_def split: prod.splits)
  moreover have "encodable password"
  proof (rule ccontr)
    assume "\<not> encodable password"
    then have "isl (encode password)" by (rule encode_not_encodable)
    then obtain e where "encode password = Inl e" by (cases "encode password") auto
    then show False using assms
      by (auto simp add: derive_key_def Let_def split: prod.splits if_splits)
  qed
  ultimately show ?thesis by simp
qed

lemma encrypt_image_Inr:
  assumes "encrypt_image lib P password g = (Inr x, g')"
  shows "password \<noteq> [] \<and> encodable password"
proof (cases "derive_key lib password None 200000 g")
  case (Pair r g1)
  show ?thesis
  proof (cases r)
    case (Inl e)
    then show ?thesis using assms Pair by (simp add: encrypt_image_def)
  next
    case (Inr y)
    then show ?thesis using Pair derive_key_Inr [of lib password None 200000 g y g1] by simp
  qed
qed

lemma encrypt_image_ok:
  assumes lib: "sound_library lib" and pw: "password \<noteq> []" and enc: "encodable password"
      and u1: "urandom 16 g = (salt, g1)" and u2: "urandom 16 g1 = (iv, g2)"
  shows "\<exists>key ct. PBKDF2 lib (utf8 password) salt 32 200000 = Inr key \<and> length key = 32 \<and>
           encrypt lib \<lparr>cipher_key = key, cipher_iv = iv\<rparr> (pad image_data 16) = Inr ct \<and>
           length ct = length (pad image_data 16) \<and>
           encrypt_image lib image_data password g = (Inr (salt, iv, ct), g2)"
proof -
  from derive_key_fresh [OF lib pw enc _ u1, of 200000]
  obtain key where dk: "derive_key lib password None 200000 g = (Inr (key, salt), g1)"
    and lk: "length key = 32" and k: "PBKDF2 lib (utf8 password) salt 32 200000 = Inr key"
    by auto
  have liv: "length iv = 16" by (rule urandom_length [OF u2])
  let ?ci = "\<lparr>cipher_key = key, cipher_iv = iv\<rparr>"
  have new: "AES_new key iv = Inr ?ci" using lk liv by (simp add: AES_new_def)
  have E: "\<And>b. length b = 16 \<Longrightarrow> length (AES_encrypt_block lib (cipher_key ?ci) b) = 16"
    using lib lk unfolding sound_library_def by simp
  have m: "length (pad image_data 16) mod 16 = 0" by (simp only: length_pad mod_mult_self1_is_0)
  from encrypt_ok [OF E _ m] liv
  obtain ct where e: "encrypt lib ?ci (pad image_data 16) = Inr ct"
    and lc: "length ct = length (pad image_data 16)" by auto
  have "encrypt_image lib image_data password g = (Inr (salt, iv, ct), g2)"
    unfolding encrypt_image_def by (simp add: dk u2 new e)
  with k lk e lc show ?thesis by blast
qed

lemma split_of_combine:
  "length s = 16 \<Longrightarrow> length i = 16 \<Longrightarrow>
   split_encrypted_data (combine_encrypted_data s i c) = Inr (s, i, c)"
  by (simp add: split_encrypted_data_def combine_encrypted_data_def slice_def)

lemma decrypt_image_ok:
  assumes lib: "sound_library lib" and pw: "password \<noteq> []" and enc: "encodable password"
      and ls: "length salt = 16" and liv: "length iv = 16"
      and k: "PBKDF2 lib (utf8 password) salt 32 200000 = Inr key" and lk: "length key = 32"
      and e: "encrypt lib \<lparr>cipher_key = key, cipher_iv = iv\<rparr> (pad image_data 16) = Inr ct"
  shows "decrypt_image lib ct salt iv password h = (Inr image_data, h)"
proof -
  let ?ci = "\<lparr>cipher_key = key, cipher_iv = iv\<rparr>"
  have s: "salt \<noteq> []" using ls by auto
  have dk: "derive_key lib password (Some salt) 200000 h = (Inr (key, salt), h)"
    by (rule derive_key_given [OF pw enc s k])
  have new: "AES_new key iv = Inr ?ci" using lk liv by (simp add: AES_new_def)
  have E: "\<And>b. length b = 16 \<Longrightarrow> length (AES_encrypt_block lib (cipher_key ?ci) b) = 16"
    using lib lk unfolding sound_library_def by simp
  have D: "\<And>b. length b = 16 \<Longrightarrow>
      AES_decrypt_block lib (cipher_key ?ci) (AES_encrypt_block lib (cipher_key ?ci) b) = b"
    using lib lk unfolding sound_library_def by simp
  have m: "length (pad image_data 16) mod 16 = 0" by (simp only: length_pad mod_mult_self1_is_0)
  have d: "decrypt lib ?ci ct = Inr (pad image_data 16)"
  proof (rule decrypt_encrypt [OF E D _ m e])
    show "length (cipher_iv ?ci) = 16" using liv by simp
  qed
  show ?thesis
    unfolding decrypt_image_def by (simp add: dk new d unpad_pad)
qed

text \<open>
  C8. Whenever \<open>encrypt_image\<close> returns, for any plaintext and password, its ciphertext
  has length \<open>16 * (len P div 16 + 1)\<close>: the length of the padded plaintext, a non-zero
  multiple of 16, and 16 more than the plaintext when that is already a multiple of 16.
  It returns for every non-empty password that UTF-8 can encode, and raises for the
  empty password and for a password with a surrogate. The library is any one whose key
  derivation returns the 32 bytes asked for and whose block cipher maps 16-byte blocks to
  16-byte blocks.
\<close>

theorem encrypt_image_ciphertext_length:
  assumes "sound_library lib"
  shows "(\<forall>salt iv ct g'. encrypt_image lib P password g = (Inr (salt, iv, ct), g') \<longrightarrow>
            length ct = 16 * (length P div 16 + 1) \<and> length ct = length (pad P 16) \<and>
            0 < length ct \<and> length ct mod 16 = 0 \<and>
            (length P mod 16 = 0 \<longrightarrow> length ct = length P + 16)) \<and>
         (password \<noteq> [] \<and> encodable password \<longrightarrow>
            (\<exists>salt iv ct g'. encrypt_image lib P password g = (Inr (salt, iv, ct), g'))) \<and>
         (password = [] \<or> \<not> encodable password \<longrightarrow>
            isl (fst (encrypt_image lib P password g)))"
proof -
  obtain salt g1 where u1: "urandom 16 g = (salt, g1)" by (cases "urandom 16 g")
  obtain iv g2 where u2: "urandom 16 g1 = (iv, g2)" by (cases "urandom 16 g1")
  have len: "length ct' = 16 * (length P div 16 + 1) \<and> length ct' = length (pad P 16) \<and>
            0 < length ct' \<and> length ct' mod 16 = 0 \<and>
            (length P mod 16 = 0 \<longrightarrow> length ct' = length P + 16)"
    if r: "encrypt_image lib P password g = (Inr (salt', iv', ct'), g')" for salt' iv' ct' g'
  proof -
    from encrypt_image_Inr [OF r] have pw: "password \<noteq> []" and enc: "encodable password"
      by simp_all
    from encrypt_image_ok [OF assms pw enc u1 u2, of P]
    obtain ct where e: "encrypt_image lib P password g = (Inr (salt, iv, ct), g2)"
      and l0: "length ct = length (pad P 16)" by blast
    from e r have "ct' = ct" by simp
    with l0 have l: "length ct' = length (pad P 16)" by simp
    have l16: "length ct' = 16 * (length P div 16 + 1)" by (simp only: l length_pad)
    have pos: "0 < length ct'" by (simp add: l16)
    have m: "length ct' mod 16 = 0" by (simp only: l16 mod_mult_self1_is_0)
    have ex: "length P mod 16 = 0 \<longrightarrow> length ct' = length P + 16"
    proof
      assume "length P mod 16 = 0"
      then have "16 * (length P div 16) = length P" by (simp add: mod_eq_0_iff_dvd)
      then show "length ct' = length P + 16" by (simp add: l16)
    qed
    from l16 l pos m ex show ?thesis by (intro conjI)
  qed
  have ok: "password \<noteq> [] \<and> encodable password \<longrightarrow>
            (\<exists>salt iv ct g'. encrypt_image lib P password g = (Inr (salt, iv, ct), g'))"
  proof
    assume "password \<noteq> [] \<and> encodable password"
    then have pw: "password \<noteq> []" and enc: "encodable password" by simp_all
    from encrypt_image_ok [OF assms pw enc u1 u2, of P] show
      "\<exists>salt iv ct g'. encrypt_image lib P password g = (Inr (salt, iv, ct), g')" by blast
  qed
  have bad: "password = [] \<or> \<not> encodable password \<longrightarrow>
            isl (fst (encrypt_image lib P password g))"
  proof
    assume b: "password = [] \<or> \<not> encodable password"
    obtain r g' where e: "encrypt_image lib P password g = (r, g')"
      by (cases "encrypt_image lib P password g")
    show "isl (fst (encrypt_image lib P password g))"
    proof (cases r)
      case (Inl x)
      then show ?thesis using e by simp
    next
      case (Inr x)
      with e encrypt_image_Inr [of lib P password g x g'] b show ?thesis by simp
    qed
  qed
  from len ok bad show ?thesis by blast
qed

theorem encrypt_image_ciphertext_length_witness:
  "sound_library toy_lib \<and> [112, 119] \<noteq> ([] :: pystr) \<and> encodable [112, 119] \<and>
   (\<exists>salt iv ct g'. encrypt_image toy_lib (replicate 16 7) [112, 119] counting =
       (Inr (salt, iv, ct), g') \<and>
     length ct = 16 * (length (replicate 16 (7::byte)) div 16 + 1) \<and>
     length ct = length (pad (replicate 16 7) 16) \<and>
     0 < length ct \<and> length ct mod 16 = 0 \<and>
     (length (replicate 16 (7::byte)) mod 16 = 0 \<longrightarrow>
        length ct = length (replicate 16 (7::byte)) + 16)) \<and>
   isl (fst (encrypt_image toy_lib (replicate 16 7) [] counting)) \<and>
   \<not> encodable [0xD800] \<and>
   isl (fst (encrypt_image toy_lib (replicate 16 7) [0xD800] counting))"
proof -
  have pw: "[112, 119] \<noteq> ([] :: pystr)" by simp
  have enc: "encodable [112, 119]" by (simp add: encodable_def is_surrogate_def)
  have nenc: "\<not> encodable [0xD800]" by (simp add: encodable_def is_surrogate_def)
  note t = encrypt_image_ciphertext_length [OF toy_lib_sound, of "replicate 16 7" _ counting]
  note t1 = t [of "[112, 119]"]
  from t1 pw enc obtain salt iv ct g'
    where e: "encrypt_image toy_lib (replicate 16 7) [112, 119] counting =
                (Inr (salt, iv, ct), g')"
    by blast
  have "length ct = 16 * (length (replicate 16 (7::byte)) div 16 + 1) \<and>
      length ct = length (pad (replicate 16 7) 16) \<and>
      0 < length ct \<and> length ct mod 16 = 0 \<and>
      (length (replicate 16 (7::byte)) mod 16 = 0 \<longrightarrow>
         length ct = length (replicate 16 (7::byte)) + 16)"
    by (rule conjunct1 [OF t1, rule_format, OF e])
  with e
  have a: "\<exists>salt iv ct g'. encrypt_image toy_lib (replicate 16 7) [112, 119] counting =
       (Inr (salt, iv, ct), g') \<and>
     length ct = 16 * (length (replicate 16 (7::byte)) div 16 + 1) \<and>
     length ct = length (pad (replicate 16 7) 16) \<and>
     0 < length ct \<and> length ct mod 16 = 0 \<and>
     (length (replicate 16 (7::byte)) mod 16 = 0 \<longrightarrow>
        length ct = length (replicate 16 (7::byte)) + 16)"
    by - (assumption | rule exI conjI)+
  from t [of "[]"] have b: "isl (fst (encrypt_image toy_lib (replicate 16 7) [] counting))"
    by blast
  from t [of "[0xD800]"] nenc
  have c: "isl (fst (encrypt_image toy_lib (replicate 16 7) [0xD800] counting))"
    by blast
  from toy_lib_sound pw enc a b nenc c show ?thesis by (intro conjI)
qed

text \<open>
  C1, as amended. Round trip: for every plaintext \<open>P\<close> (the empty one included) and every
  non-empty password that UTF-8 can encode, \<open>encrypt_image\<close> succeeds, splitting the
  combined container gives its salt, IV and ciphertext back, and \<open>decrypt_image\<close> on them
  with the same password returns \<open>P\<close>, whatever the state of the random source. The
  library is any one whose key derivation returns the 32 bytes asked for and whose block
  decryption undoes its block encryption.
\<close>

theorem encrypt_decrypt_round_trip:
  assumes "sound_library lib" and "password \<noteq> []" and "encodable password"
  shows "\<exists>salt iv ct g'. encrypt_image lib P password g = (Inr (salt, iv, ct), g') \<and>
           (\<exists>salt' iv' ct'.
              split_encrypted_data (combine_encrypted_data salt iv ct) = Inr (salt', iv', ct') \<and>
              (\<forall>h. decrypt_image lib ct' salt' iv' password h = (Inr P, h)))"
proof -
  obtain salt g1 where u1: "urandom 16 g = (salt, g1)" by (cases "urandom 16 g")
  obtain iv g2 where u2: "urandom 16 g1 = (iv, g2)" by (cases "urandom 16 g1")
  have ls: "length salt = 16" by (rule urandom_length [OF u1])
  have liv: "length iv = 16" by (rule urandom_length [OF u2])
  from encrypt_image_ok [OF assms u1 u2, of P]
  obtain key ct where k: "PBKDF2 lib (utf8 password) salt 32 200000 = Inr key"
    and lk: "length key = 32"
    and c: "encrypt lib \<lparr>cipher_key = key, cipher_iv = iv\<rparr> (pad P 16) = Inr ct"
    and e: "encrypt_image lib P password g = (Inr (salt, iv, ct), g2)" by blast
  have sp: "split_encrypted_data (combine_encrypted_data salt iv ct) = Inr (salt, iv, ct)"
    by (rule split_of_combine [OF ls liv])
  have d: "\<forall>h. decrypt_image lib ct salt iv password h = (Inr P, h)"
    using decrypt_image_ok [OF assms ls liv k lk c] by blast
  from e sp d show ?thesis by blast
qed

theorem encrypt_decrypt_round_trip_witness:
  "sound_library toy_lib \<and> [115, 101, 99, 114, 101, 116] \<noteq> ([] :: pystr) \<and>
   encodable [115, 101, 99, 114, 101, 116] \<and>
   (\<exists>salt iv ct g'.
      encrypt_image toy_lib [1, 2, 3] [115, 101, 99, 114, 101, 116] (\<lambda>i. of_nat (3 * i)) =
        (Inr (salt, iv, ct), g') \<and>
      (\<exists>salt' iv' ct'.
         split_encrypted_data (combine_encrypted_data salt iv ct) = Inr (salt', iv', ct') \<and>
         (\<forall>h. decrypt_image toy_lib ct' salt' iv' [115, 101, 99, 114, 101, 116] h =
                (Inr [1, 2, 3], h))))"
proof -
  have pw: "[115, 101, 99, 114, 101, 116] \<noteq> ([] :: pystr)" by simp
  have enc: "encodable [115, 101, 99, 114, 101, 116]"
    by (simp add: encodable_def is_surrogate_def)
  from encrypt_decrypt_round_trip
         [OF toy_lib_sound pw enc, of "[1, 2, 3]" "\<lambda>i. of_nat (3 * i)"]
    toy_lib_sound pw enc
  show ?thesis by blast
qed

lemma encode_surrogate:
  "encode [0xD800] =
     Inl (UnicodeEncodeError
       ([CHR 0x27] @ ''utf-8'' @ [CHR 0x27] @ '' codec can'' @ [CHR 0x27] @
        ''t encode character '' @ [CHR 0x27, CHR 0x5C] @ ''ud800'' @ [CHR 0x27] @
        '' in position 0: surrogates not allowed''))"
  by (simp add: encode_def is_surrogate_def hex4_def digit_char_def decimal_digit Let_def)

text \<open>
  The claim as stated, for every non-empty password, fails at the password of one
  surrogate: it is not empty, and \<open>encrypt_image\<close> raises, so there is no container to
  decrypt.
\<close>

theorem encrypt_image_surrogate_counterexample:
  "[0xD800] \<noteq> ([] :: pystr) \<and>
   fst (encrypt_image toy_lib [1, 2, 3] [0xD800] zeros) =
     Inl (CryptoError
       (''Encryption failed: Key derivation failed: '' @
        [CHR 0x27] @ ''utf-8'' @ [CHR 0x27] @ '' codec can'' @ [CHR 0x27] @
        ''t encode character '' @ [CHR 0x27, CHR 0x5C] @ ''ud800'' @ [CHR 0x27] @
        '' in position 0: surrogates not allowed''))"
  by (simp add: encrypt_image_def derive_key_def encode_surrogate urandom_def
        split: prod.splits)

lemma encode_pw: "encode [112, 119] = Inr [112, 119]"
  by (simp add: encode_def is_surrogate_def utf8_def encode_char_def Let_def)

lemma derive_key_pw:
  "derive_key toy_lib [112, 119] (Some []) 1 g =
     (Inr (take 32 (fst (urandom 16 g) @ [112, 119] @ replicate 32 0), fst (urandom 16 g)),
      snd (urandom 16 g))"
  by (simp add: derive_key_def encode_pw toy_lib_def split: prod.splits)

lemma empty_salt_keys_differ:
  "derived_key (derive_key toy_lib [112, 119] (Some []) 1 zeros) \<noteq>
   derived_key (derive_key toy_lib [112, 119] (Some []) 1 counting)"
  unfolding derive_key_pw by code_simp

text \<open>
  C5, as amended. For every password, every non-empty salt and every iteration count,
  \<open>derive_key\<close> does not read the random source: two calls with the same arguments
  return the same result (the same key and salt, or the same failure), whatever the
  states of the random source, and leave the source untouched.
\<close>

theorem derive_key_deterministic:
  assumes "salt \<noteq> []"
  shows "fst (derive_key lib password (Some salt) iterations g) =
           fst (derive_key lib password (Some salt) iterations h) \<and>
         derived_key (derive_key lib password (Some salt) iterations g) =
           derived_key (derive_key lib password (Some salt) iterations h) \<and>
         snd (derive_key lib password (Some salt) iterations g) = g"
  using assms by (simp add: derive_key_def derived_key_def split: sum.splits)

theorem derive_key_deterministic_witness:
  "[1, 2] \<noteq> ([] :: bytes) \<and>
   fst (derive_key toy_lib [112, 119] (Some [1, 2]) 1 zeros) =
     fst (derive_key toy_lib [112, 119] (Some [1, 2]) 1 counting) \<and>
   derived_key (derive_key toy_lib [112, 119] (Some [1, 2]) 1 zeros) =
     derived_key (derive_key toy_lib [112, 119] (Some [1, 2]) 1 counting) \<and>
   snd (derive_key toy_lib [112, 119] (Some [1, 2]) 1 zeros) = zeros"
  using derive_key_deterministic [of "[1, 2]" toy_lib "[112, 119]" 1 zeros counting] by simp

text \<open>
  The claim as stated, for every salt value, fails at the empty salt: with the same
  password, salt and iteration count, two states of the random source give two keys.
\<close>

theorem derive_key_empty_salt_counterexample:
  "derived_key (derive_key toy_lib [112, 119] (Some []) 1 zeros) \<noteq>
   derived_key (derive_key toy_lib [112, 119] (Some []) 1 counting)"
  by (rule empty_salt_keys_differ)

text \<open>
  C10. \<open>derive_key\<close> with the empty byte string as salt behaves as with no salt: it
  draws 16 bytes from the random source and derives the key from them, so the salt it
  returns is not the empty one it was given, and two calls with the same arguments can
  return different keys.
\<close>

theorem derive_key_empty_salt_is_absent:
  "derive_key lib password (Some []) iterations g = derive_key lib password None iterations g \<and>
   (password \<noteq> [] \<longrightarrow>
      derived_key (derive_key lib password (Some []) iterations g) =
        (case encode password of
           Inl e \<Rightarrow> Inl (CryptoError (''Key derivation failed: '' @ str e))
         | Inr password_bytes \<Rightarrow>
             (case PBKDF2 lib password_bytes (fst (urandom 16 g)) 32 iterations of
                Inl e \<Rightarrow> Inl (CryptoError (''Key derivation failed: '' @ str e))
              | Inr key \<Rightarrow> Inr key))) \<and>
   (\<forall>key salt g'. derive_key lib password (Some []) iterations g = (Inr (key, salt), g') \<longrightarrow>
      salt = fst (urandom 16 g) \<and> length salt = 16 \<and> salt \<noteq> [] \<and> g' = snd (urandom 16 g)) \<and>
   derived_key (derive_key toy_lib [112, 119] (Some []) 1 zeros) \<noteq>
     derived_key (derive_key toy_lib [112, 119] (Some []) 1 counting)"
proof -
  obtain s g1 where u: "urandom 16 g = (s, g1)" by (cases "urandom 16 g")
  have ls: "length s = 16" by (rule urandom_length [OF u])
  then have ne: "s \<noteq> []" by auto
  have a: "derive_key lib password (Some []) iterations g = derive_key lib password None iterations g"
    by (simp add: derive_key_def)
  have b: "password \<noteq> [] \<longrightarrow>
      derived_key (derive_key lib password (Some []) iterations g) =
        (case encode password of
           Inl e \<Rightarrow> Inl (CryptoError (''Key derivation failed: '' @ str e))
         | Inr password_bytes \<Rightarrow>
             (case PBKDF2 lib password_bytes (fst (urandom 16 g)) 32 iterations of
                Inl e \<Rightarrow> Inl (CryptoError (''Key derivation failed: '' @ str e))
              | Inr key \<Rightarrow> Inr key))"
    by (simp add: derive_key_def derived_key_def u split: sum.splits)
  have c: "\<forall>key salt g'. derive_key lib password (Some []) iterations g = (Inr (key, salt), g') \<longrightarrow>
      salt = fst (urandom 16 g) \<and> length salt = 16 \<and> salt \<noteq> [] \<and> g' = snd (urandom 16 g)"
    using ls ne by (auto simp add: derive_key_def u split: sum.splits if_splits)
  from a b c empty_salt_keys_differ show ?thesis by (intro conjI)
qed

theorem derive_key_empty_salt_is_absent_witness:
  "[112, 119] \<noteq> ([] :: pystr) \<and>
   fst (derive_key toy_lib [112, 119] (Some []) 1 counting) =
     Inr ([0, 1, 2, 3, 4, 5, 6, 7, 8, 9, 10, 11, 12, 13, 14, 15, 112, 119,
           0, 0, 0, 0, 0, 0, 0, 0, 0, 0, 0, 0, 0, 0],
          [0, 1, 2, 3, 4, 5, 6, 7, 8, 9, 10, 11, 12, 13, 14, 15]) \<and>
   [0, 1, 2, 3, 4, 5, 6, 7, 8, 9, 10, 11, 12, 13, 14, 15] = fst (urandom 16 counting) \<and>
   length [0, 1, 2, 3, 4, 5, 6, 7, 8, 9, 10, 11, 12, 13, 14, 15 :: byte] = 16 \<and>
   derive_key toy_lib [112, 119] (Some []) 1 counting = derive_key toy_lib [112, 119] None 1 counting"
proof -
  have e: "fst (derive_key toy_lib [112, 119] (Some []) 1 counting) =
     Inr ([0, 1, 2, 3, 4, 5, 6, 7, 8, 9, 10, 11, 12, 13, 14, 15, 112, 119,
           0, 0, 0, 0, 0, 0, 0, 0, 0, 0, 0, 0, 0, 0],
          [0, 1, 2, 3, 4, 5, 6, 7, 8, 9, 10, 11, 12, 13, 14, 15])"
    unfolding derive_key_pw by code_simp
  obtain r g' where d: "derive_key toy_lib [112, 119] (Some []) 1 counting = (r, g')"
    by (cases "derive_key toy_lib [112, 119] (Some []) 1 counting")
  let ?K = "[0, 1, 2, 3, 4, 5, 6, 7, 8, 9, 10, 11, 12, 13, 14, 15, 112, 119,
             0, 0, 0, 0, 0, 0, 0, 0, 0, 0, 0, 0, 0, 0 :: byte]"
  let ?S = "[0, 1, 2, 3, 4, 5, 6, 7, 8, 9, 10, 11, 12, 13, 14, 15 :: byte]"
  from e d have d': "derive_key toy_lib [112, 119] (Some []) 1 counting = (Inr (?K, ?S), g')"
    by simp
  note t = derive_key_empty_salt_is_absent [of toy_lib "[112, 119]" 1 counting]
  from t have a: "derive_key toy_lib [112, 119] (Some []) 1 counting =
      derive_key toy_lib [112, 119] None 1 counting" by (rule conjunct1)
  from t have c: "\<forall>key salt g'.
      derive_key toy_lib [112, 119] (Some []) 1 counting = (Inr (key, salt), g') \<longrightarrow>
      salt = fst (urandom 16 counting) \<and> length salt = 16 \<and> salt \<noteq> [] \<and>
      g' = snd (urandom 16 counting)" by blast
  from c d' have s: "?S = fst (urandom 16 counting)" and l: "length ?S = 16" by blast+
  have pw: "[112, 119] \<noteq> ([] :: pystr)" by simp
  from pw e s l a show ?thesis by (intro conjI)
qed

section \<open>Properties of the statistical analysis\<close>

lemma no_positive_probability:
  "filter (\<lambda>p. np_gt p (Fin 0))
     (map (\<lambda>f. np_div (Fin (real f)) (Fin (real (length ([] :: bytes)))))
        (map (\<lambda>v. count_list ([] :: bytes) (g v)) xs)) = []"
  by (induction xs) (simp_all add: np_gt_def)

lemma calculate_entropy_Nil: "calculate_entropy [] = Inr (Fin 0)"
  unfolding calculate_entropy_def bincount_def Let_def
  by (simp only: no_positive_probability list.map np_sum_def foldl.simps np_neg.simps minus_zero)

text \<open>
  C4, as amended. On the empty buffer \<open>calculate_entropy\<close> returns a number, zero: the
  histogram divided by the length 0 is NaN at every entry, no entry passes the selection
  \<open>prob > 0\<close>, and the sum over no entries is 0.
\<close>

theorem calculate_entropy_empty: "calculate_entropy [] = Inr (Fin 0)"
  by (rule calculate_entropy_Nil)

text \<open>
  The claim as stated fails: \<open>calculate_entropy\<close> on the empty buffer does not raise.
\<close>

theorem calculate_entropy_empty_counterexample: "\<not> isl (calculate_entropy [])"
  by (simp add: calculate_entropy_Nil)

section \<open>Properties of the rounding\<close>

lemma pow2_powr: "pow2 e = 2 powr (of_int e)"
  by (simp add: pow2_def powr_real_of_int inverse_eq_divide)

lemma pow2_pos: "0 < pow2 e"
  by (simp add: pow2_def)

lemma pow2_add: "pow2 (a + b) = pow2 a * pow2 b"
  by (simp add: pow2_powr powr_add)

lemma round_half_even_int: "round_half_even (of_int z) = z"
  by (simp add: round_half_even_def)

lemma round_half_even_error: "\<bar>of_int (round_half_even y) - y\<bar> \<le> 1 / 2"
proof -
  have "of_int \<lfloor>y\<rfloor> \<le> y" "y < of_int \<lfloor>y\<rfloor> + 1" by linarith+
  then show ?thesis by (auto simp add: round_half_even_def Let_def)
qed

lemma exponent_bounds:
  assumes "x \<noteq> 0"
  shows "pow2 \<lfloor>log 2 \<bar>x\<bar>\<rfloor> \<le> \<bar>x\<bar>" and "\<bar>x\<bar> < pow2 (\<lfloor>log 2 \<bar>x\<bar>\<rfloor> + 1)"
proof -
  have p: "0 < \<bar>x\<bar>" using assms by simp
  have "of_int \<lfloor>log 2 \<bar>x\<bar>\<rfloor> \<le> log 2 \<bar>x\<bar>" by linarith
  then have "2 powr (of_int \<lfloor>log 2 \<bar>x\<bar>\<rfloor>) \<le> 2 powr (log 2 \<bar>x\<bar>)" by simp
  then show "pow2 \<lfloor>log 2 \<bar>x\<bar>\<rfloor> \<le> \<bar>x\<bar>" using p by (simp add: pow2_powr)
  have "log 2 \<bar>x\<bar> < of_int (\<lfloor>log 2 \<bar>x\<bar>\<rfloor> + 1)" by linarith
  then have "2 powr (log 2 \<bar>x\<bar>) < 2 powr (of_int (\<lfloor>log 2 \<bar>x\<bar>\<rfloor> + 1))" by (simp del: of_int_add)
  then show "\<bar>x\<bar> < pow2 (\<lfloor>log 2 \<bar>x\<bar>\<rfloor> + 1)" using p by (simp add: pow2_powr del: of_int_add)
qed

lemma exponent_unique:
  assumes "pow2 k \<le> \<bar>x\<bar>" and "\<bar>x\<bar> < pow2 (k + 1)"
  shows "\<lfloor>log 2 \<bar>x\<bar>\<rfloor> = k"
proof -
  have p: "0 < \<bar>x\<bar>" using assms(1) pow2_pos [of k] by linarith
  have "2 powr (of_int k) \<le> 2 powr (log 2 \<bar>x\<bar>)" using assms(1) p by (simp add: pow2_powr)
  then have a: "of_int k \<le> log 2 \<bar>x\<bar>" by simp
  have "2 powr (log 2 \<bar>x\<bar>) < 2 powr (of_int (k + 1))" using assms(2) p by (simp add: pow2_powr del: of_int_add)
  then have b: "log 2 \<bar>x\<bar> < of_int (k + 1)" by (simp del: of_int_add)
  from a b show ?thesis by linarith
qed

lemma pow2_mono: "a \<le> b \<Longrightarrow> pow2 a \<le> pow2 b"
  by (simp add: pow2_powr)

lemma exponent_ge:
  assumes "pow2 k \<le> \<bar>x\<bar>"
  shows "k \<le> \<lfloor>log 2 \<bar>x\<bar>\<rfloor>"
proof (rule ccontr)
  assume "\<not> k \<le> \<lfloor>log 2 \<bar>x\<bar>\<rfloor>"
  then have "\<lfloor>log 2 \<bar>x\<bar>\<rfloor> + 1 \<le> k" by simp
  then have "pow2 (\<lfloor>log 2 \<bar>x\<bar>\<rfloor> + 1) \<le> pow2 k" by (rule pow2_mono)
  moreover have "x \<noteq> 0" using assms pow2_pos [of k] by auto
  ultimately show False using exponent_bounds(2) [of x] assms by linarith
qed

lemma exponent_le:
  assumes "x \<noteq> 0" and "\<bar>x\<bar> \<le> pow2 k"
  shows "\<lfloor>log 2 \<bar>x\<bar>\<rfloor> \<le> k"
proof (rule ccontr)
  assume "\<not> \<lfloor>log 2 \<bar>x\<bar>\<rfloor> \<le> k"
  then have "k + 1 \<le> \<lfloor>log 2 \<bar>x\<bar>\<rfloor>" by simp
  then have "pow2 (k + 1) \<le> pow2 \<lfloor>log 2 \<bar>x\<bar>\<rfloor>" by (rule pow2_mono)
  moreover have "pow2 k < pow2 (k + 1)" by (simp add: pow2_powr del: of_int_add)
  ultimately show False using exponent_bounds(1) [OF assms(1)] assms(2) by linarith
qed

lemma float32_round_error:
  assumes "1 / 2 ^ 126 \<le> \<bar>x\<bar>"
  shows "\<bar>float32_round x - x\<bar> \<le> \<bar>x\<bar> / 2 ^ 24"
proof -
  let ?e = "\<lfloor>log 2 \<bar>x\<bar>\<rfloor>"
  let ?ulp = "pow2 (?e - 23)"
  have x0: "x \<noteq> 0" using assms by auto
  have "pow2 (- 126) \<le> \<bar>x\<bar>" using assms by (simp add: pow2_def)
  then have e: "- 126 \<le> ?e" by (rule exponent_ge)
  then have m: "max ?e (- 126) = ?e" by simp
  have up: "0 < ?ulp" by (rule pow2_pos)
  have fl: "float32_round x = of_int (round_half_even (x / ?ulp)) * ?ulp"
    using x0 by (simp add: float32_round_def Let_def m)
  have "float32_round x - x = (of_int (round_half_even (x / ?ulp)) - x / ?ulp) * ?ulp"
    using up by (simp add: fl algebra_simps)
  then have "\<bar>float32_round x - x\<bar> = \<bar>of_int (round_half_even (x / ?ulp)) - x / ?ulp\<bar> * ?ulp"
    using up by (simp add: abs_mult)
  also have "\<dots> \<le> (1 / 2) * ?ulp"
    using round_half_even_error [of "x / ?ulp"] up by (intro mult_right_mono) simp_all
  also have "?ulp = pow2 ?e * pow2 (- 23)" using pow2_add [of ?e "- 23"] by simp
  also have "(1 / 2) * (pow2 ?e * pow2 (- 23)) = pow2 ?e / 2 ^ 24" by (simp add: pow2_def)
  also have "\<dots> \<le> \<bar>x\<bar> / 2 ^ 24"
    using exponent_bounds(1) [OF x0] by (simp add: divide_right_mono)
  finally show ?thesis .
qed

lemma float32_round_exact:
  assumes "x \<noteq> 0" and "x / pow2 (max \<lfloor>log 2 \<bar>x\<bar>\<rfloor> (- 126) - 23) = of_int z"
  shows "float32_round x = x"
proof -
  let ?ulp = "pow2 (max \<lfloor>log 2 \<bar>x\<bar>\<rfloor> (- 126) - 23)"
  have up: "0 < ?ulp" by (rule pow2_pos)
  have "float32_round x = of_int (round_half_even (of_int z)) * ?ulp"
    using assms by (simp add: float32_round_def Let_def)
  also have "\<dots> = of_int z * ?ulp" by (simp only: round_half_even_int)
  also have "\<dots> = x" using assms(2) [symmetric] up by simp
  finally show ?thesis .
qed

lemma float32_round_nat:
  assumes "k \<le> 2 ^ 24"
  shows "float32_round (real k) = real k"
proof (cases "k = 0")
  case True
  then show ?thesis by (simp add: float32_round_def)
next
  case False
  let ?x = "real k"
  let ?e = "\<lfloor>log 2 ?x\<rfloor>"
  have x0: "?x \<noteq> 0" using False by simp
  have "pow2 0 \<le> \<bar>?x\<bar>" using False by (simp add: pow2_def)
  from exponent_ge [OF this] have e0: "0 \<le> ?e" by simp
  have "\<bar>?x\<bar> \<le> pow2 24" using assms by (simp add: pow2_def)
  from exponent_le [OF x0 this] have e24: "?e \<le> 24" by simp
  have m: "max ?e (- 126) = ?e" using e0 by simp
  have ex: "?x / pow2 (?e - 23) = of_int z \<Longrightarrow> float32_round ?x = ?x" for z
    using float32_round_exact [OF x0, of z] by (simp add: m)
  show ?thesis
  proof (cases "?e \<le> 23")
    case True
    then have "pow2 (?e - 23) = 1 / 2 ^ nat (23 - ?e)"
      by (cases "?e = 23") (simp_all add: pow2_def)
    then have "?x / pow2 (?e - 23) = of_int (int k * 2 ^ nat (23 - ?e))"
      by simp
    then show ?thesis by (rule ex)
  next
    case False
    with e24 have e: "?e = 24" by linarith
    have "pow2 24 \<le> ?x" using exponent_bounds(1) [OF x0] e by simp
    then have "(2::real) ^ 24 \<le> real k" by (simp add: pow2_def)
    then have "2 ^ 24 \<le> k" by (metis of_nat_le_iff of_nat_numeral of_nat_power)
    then have k: "k = 2 ^ 24" using assms by simp
    have p: "pow2 (?e - 23) = 2" by (simp add: e pow2_def)
    have "?x / pow2 (?e - 23) = ?x / 2" by (simp only: p)
    also have "\<dots> = of_int (2 ^ 23)" by (simp add: k)
    finally show ?thesis by (rule ex)
  qed
qed

lemma float32_round_pos:
  assumes "0 < k"
  shows "0 < float32_round (real k)"
proof -
  have "1 / 2 ^ 126 \<le> \<bar>real k\<bar>"
  proof -
    have "(1::real) / 2 ^ 126 \<le> 1" by simp
    also have "1 \<le> \<bar>real k\<bar>" using assms by simp
    finally show ?thesis .
  qed
  from float32_round_error [OF this]
  have "\<bar>float32_round (real k) - real k\<bar> \<le> real k / 2 ^ 24" by simp
  moreover have "real k / 2 ^ 24 < real k" using assms by simp
  ultimately show ?thesis by linarith
qed

lemma sequential_sum_exact:
  "a + sum_list ks \<le> 2 ^ 24 \<Longrightarrow>
   foldl (\<lambda>a x. float32_round (a + x)) (real a) (map real ks) = real (a + sum_list ks)"
proof (induction ks arbitrary: a)
  case Nil
  then show ?case by simp
next
  case (Cons k ks)
  have "a + k \<le> 2 ^ 24" using Cons.prems by simp
  then have "float32_round (real a + real k) = real (a + k)"
    using float32_round_nat [of "a + k"] by simp
  moreover have "(a + k) + sum_list ks \<le> 2 ^ 24" using Cons.prems by simp
  ultimately show ?case using Cons.IH [of "a + k"] by (simp add: add.assoc)
qed

lemma single_precision_ieee: "ieee_arithmetic single_precision"
proof -
  have s: "\<forall>ks::nat list. sum_list ks \<le> 2 ^ 24 \<longrightarrow>
             foldl (\<lambda>a x. float32_round (a + x)) 0 (map real ks) = real (sum_list ks)"
    using sequential_sum_exact [of 0] by simp
  show ?thesis
    unfolding ieee_arithmetic_def single_precision_def
    using float32_round_nat float32_round_pos float32_round_error s by simp
qed

lemma float32_round_eval:
  fixes k :: nat
  assumes "2 ^ k \<le> \<bar>x\<bar>" and "\<bar>x\<bar> < 2 ^ (k + 1)" and "k \<le> 23"
  shows "float32_round x = of_int (round_half_even (x * 2 ^ (23 - k))) / 2 ^ (23 - k)"
proof -
  have x0: "x \<noteq> 0"
  proof
    assume "x = 0"
    with assms(1) have "(2::real) ^ k \<le> 0" by simp
    moreover have "(0::real) < 2 ^ k" by simp
    ultimately show False by linarith
  qed
  have a: "pow2 (int k) \<le> \<bar>x\<bar>" using assms(1) by (simp add: pow2_def)
  have b: "\<bar>x\<bar> < pow2 (int k + 1)" using assms(2) by (simp add: pow2_def nat_add_distrib)
  have e: "\<lfloor>log 2 \<bar>x\<bar>\<rfloor> = int k" by (rule exponent_unique [OF a b])
  have u: "pow2 (int k - 23) = 1 / 2 ^ (23 - k)"
  proof (cases "k = 23")
    case True
    then show ?thesis by (simp add: pow2_def)
  next
    case False
    then have "int k - 23 < 0" using assms(3) by simp
    moreover have "nat (23 - int k) = 23 - k" by simp
    ultimately show ?thesis by (simp add: pow2_def)
  qed
  show ?thesis using x0 by (simp add: float32_round_def Let_def e u)
qed

lemma ieee_nat: "ieee_arithmetic F \<Longrightarrow> k \<le> 2 ^ 24 \<Longrightarrow> scalar_round F (real k) = real k"
  by (simp add: ieee_arithmetic_def)

lemma ieee_zero: "ieee_arithmetic F \<Longrightarrow> scalar_round F 0 = 0"
  using ieee_nat [of F 0] by simp




lemma ieee_sum:
  "ieee_arithmetic F \<Longrightarrow> sum_list ks \<le> 2 ^ 24 \<Longrightarrow>
   array_sum F (map real ks) = real (sum_list ks)"
  by (simp add: ieee_arithmetic_def)



section \<open>Properties of NPCR and UACI\<close>

lemma map2_nth:
  assumes "length xs = n" and "length ys = n"
  shows "map2 f xs ys = map (\<lambda>i. f (xs ! i) (ys ! i)) [0..<n]"
  using assms by (intro nth_equalityI) simp_all

lemma sum_list_indicator:
  "sum_list (map (\<lambda>i. if P i then 1 else (0::nat)) xs) = length (filter P xs)"
  by (induction xs) simp_all





lemma npcr_uaci_values:
  assumes wa: "wf_array a" and wb: "wf_array b" and s: "shape a = shape b"
  shows "calculate_npcr_uaci F a b =
           Inr \<lparr>npcr = scalar_div F
                         (scalar_mul F 100
                            (array_sum F
                               (map real (map (\<lambda>i. if elems a ! i \<noteq> elems b ! i then 1 else 0)
                                            [0..<array_size a]))))
                         (real (array_size a)),
                uaci = scalar_div F
                         (scalar_mul F 100
                            (array_sum F
                               (map real
                                  (map (\<lambda>i. nat \<bar>int (unat (elems a ! i)) -
                                                  int (unat (elems b ! i))\<bar>)
                                     [0..<array_size a]))))
                         (real (255 * array_size a))\<rparr>"
proof -
  let ?n = "array_size a"
  have la: "length (elems a) = ?n" using wa by (simp add: wf_array_def)
  have lb: "length (elems b) = ?n" using wb s by (simp add: wf_array_def array_size_def)
  have d: "map2 (\<lambda>x y. if x \<noteq> y then 1 else (0::real)) (elems a) (elems b) =
           map real (map (\<lambda>i. if elems a ! i \<noteq> elems b ! i then 1 else 0) [0..<?n])"
    by (simp add: map2_nth [OF la lb] comp_def if_distrib)
  have r: "\<bar>real x - real y\<bar> = real (nat \<bar>int x - int y\<bar>)" for x y :: nat
    by simp
  have u: "map2 (\<lambda>x y. \<bar>real (unat x) - real (unat y)\<bar>) (elems a) (elems b) =
           map real (map (\<lambda>i. nat \<bar>int (unat (elems a ! i)) - int (unat (elems b ! i))\<bar>)
                       [0..<?n])"
    by (simp only: map2_nth [OF la lb] map_map comp_def r)
  show ?thesis
    unfolding calculate_npcr_uaci_def Let_def d u using s by simp
qed

lemma npcr_value:
  assumes F: "ieee_arithmetic F" and wa: "wf_array a" and wb: "wf_array b"
      and s: "shape a = shape b" and n: "differing_positions a b \<le> 2 ^ 24"
  shows "\<exists>m. calculate_npcr_uaci F a b = Inr m \<and>
             npcr m = scalar_div F (scalar_mul F 100 (real (differing_positions a b)))
                        (real (array_size a))"
proof -
  let ?ks = "map (\<lambda>i. if elems a ! i \<noteq> elems b ! i then 1 else (0::nat)) [0..<array_size a]"
  have t: "sum_list ?ks = differing_positions a b"
    by (simp add: differing_positions_def sum_list_indicator)
  have "sum_list ?ks \<le> 2 ^ 24" using n by (simp only: t)
  then have "array_sum F (map real ?ks) = real (sum_list ?ks)" by (rule ieee_sum [OF F])
  then have e: "array_sum F (map real ?ks) = real (differing_positions a b)" by (simp only: t)
  show ?thesis unfolding npcr_uaci_values [OF wa wb s] e by simp
qed

lemma uaci_value:
  assumes F: "ieee_arithmetic F" and wa: "wf_array a" and wb: "wf_array b"
      and s: "shape a = shape b" and n: "sum_abs_differences a b \<le> 2 ^ 24"
  shows "\<exists>m. calculate_npcr_uaci F a b = Inr m \<and>
             uaci m = scalar_div F (scalar_mul F 100 (real (sum_abs_differences a b)))
                        (real (255 * array_size a))"
proof -
  let ?ks = "map (\<lambda>i. nat \<bar>int (unat (elems a ! i)) - int (unat (elems b ! i))\<bar>)
               [0..<array_size a]"
  have t: "sum_list ?ks = sum_abs_differences a b" by (simp only: sum_abs_differences_def)
  have "sum_list ?ks \<le> 2 ^ 24" using n by (simp only: t)
  then have "array_sum F (map real ?ks) = real (sum_list ?ks)" by (rule ieee_sum [OF F])
  then have e: "array_sum F (map real ?ks) = real (sum_abs_differences a b)" by (simp only: t)
  show ?thesis unfolding npcr_uaci_values [OF wa wb s] e by simp
qed

lemma npcr_uaci_value:
  assumes F: "ieee_arithmetic F" and wa: "wf_array a" and wb: "wf_array b"
      and s: "shape a = shape b" and n: "differing_positions a b \<le> 2 ^ 24"
      and n': "sum_abs_differences a b \<le> 2 ^ 24"
  shows "calculate_npcr_uaci F a b =
           Inr \<lparr>npcr = scalar_div F (scalar_mul F 100 (real (differing_positions a b)))
                          (real (array_size a)),
                uaci = scalar_div F (scalar_mul F 100 (real (sum_abs_differences a b)))
                          (real (255 * array_size a))\<rparr>"
proof -
  from npcr_value [OF F wa wb s n] obtain m where m: "calculate_npcr_uaci F a b = Inr m"
    and p: "npcr m = scalar_div F (scalar_mul F 100 (real (differing_positions a b)))
                       (real (array_size a))" by blast
  from uaci_value [OF F wa wb s n'] obtain m' where m': "calculate_npcr_uaci F a b = Inr m'"
    and q: "uaci m' = scalar_div F (scalar_mul F 100 (real (sum_abs_differences a b)))
                        (real (255 * array_size a))" by blast
  from m m' have "m' = m" by simp
  with q have q': "uaci m = scalar_div F (scalar_mul F 100 (real (sum_abs_differences a b)))
                        (real (255 * array_size a))" by simp
  have "m = \<lparr>npcr = npcr m, uaci = uaci m\<rparr>" by simp
  then show ?thesis unfolding m p q' by simp
qed



lemma npcr_uaci_no_position:
  assumes F: "ieee_arithmetic F" and s: "shape a = shape b" and n: "array_size a = 0"
      and wa: "wf_array a" and wb: "wf_array b"
  shows "calculate_npcr_uaci F a b = Inr \<lparr>npcr = NaN, uaci = NaN\<rparr>"
proof -
  have d: "differing_positions a b = 0" by (simp add: differing_positions_def n)
  have u: "sum_abs_differences a b = 0" by (simp add: sum_abs_differences_def n)
  have z: "scalar_div F (scalar_mul F 100 0) 0 = NaN"
    by (simp add: scalar_div_def scalar_mul_def ieee_zero [OF F])
  have "calculate_npcr_uaci F a b =
           Inr \<lparr>npcr = scalar_div F (scalar_mul F 100 (real (differing_positions a b)))
                          (real (array_size a)),
                uaci = scalar_div F (scalar_mul F 100 (real (sum_abs_differences a b)))
                          (real (255 * array_size a))\<rparr>"
    by (rule npcr_uaci_value [OF F wa wb s]) (simp_all add: d u)
  then show ?thesis unfolding d u n by (simp add: z)
qed



text \<open>
  Rounding can move a value onto a threshold of the scoring: with 259579 differing
  positions out of 262201 the quotient is above 99, and its single-precision value is 99.
\<close>

lemma float32_round_99: "float32_round (25957900 / 262201) = 99"
proof -
  have "float32_round (25957900 / 262201) =
          of_int (round_half_even (25957900 / 262201 * 2 ^ (23 - 6))) / 2 ^ (23 - 6)"
    by (rule float32_round_eval) simp_all
  also have "round_half_even (25957900 / 262201 * 2 ^ (23 - 6)) = 12976128"
    by (simp add: round_half_even_def Let_def)
  finally show ?thesis by simp
qed


lemma npcr_uaci_empty:
  "calculate_npcr_uaci single_precision (reshape_column []) (reshape_column []) =
     Inr \<lparr>npcr = NaN, uaci = NaN\<rparr>"
  by (rule npcr_uaci_no_position [OF single_precision_ieee])
     (simp_all add: reshape_column_def array_size_def wf_array_def)




section \<open>Properties of the scoring\<close>

lemma strength_score_eq_table: "strength_score e c n = spec_table_score e c n"
  by (cases e; cases c; cases n)
     (auto simp add: strength_score_def spec_table_score_def np_gt_def np_le_def Let_def)

lemma verdict_of_iff:
  "(verdict_of s = Strong \<longleftrightarrow> 5 \<le> s) \<and>
   (verdict_of s = Moderate \<longleftrightarrow> 3 \<le> s \<and> s < 5) \<and>
   (verdict_of s = Weak \<longleftrightarrow> s < 3)"
  by (auto simp add: verdict_of_def)

lemma analyze_verdict:
  assumes "analyze_encryption_strength F orig enc = Inr r"
  shows "verdict r =
           verdict_of (strength_score (entropy r) (avg_correlation (correlations r)) (npcr r))"
  using assms
  by (auto simp add: analyze_encryption_strength_def Let_def split: sum.splits)

lemma butlast_short: "length ys \<le> 1 \<Longrightarrow> butlast ys = []"
  by (cases ys) auto

lemma column_views_empty:
  assumes "w \<le> 1"
  shows "concat (map butlast (rows_of n w xs)) = []"
    and "concat (map butlast (butlast (rows_of n w xs))) = []"
proof -
  have r: "\<forall>row \<in> set (rows_of n w xs). butlast row = []"
    using assms by (auto simp add: rows_of_def intro!: butlast_short)
  then show "concat (map butlast (rows_of n w xs)) = []" by simp
  have "\<forall>row \<in> set (butlast (rows_of n w xs)). butlast row = []"
    using r by (meson in_set_butlastD)
  then show "concat (map butlast (butlast (rows_of n w xs))) = []" by simp
qed

lemma corrcoef_Nil: "corrcoef [] y = NaN"
  by (simp add: corrcoef_def)

lemma column_correlations:
  "horizontal (direction_correlations (rows_of n 1 xs)) = NaN \<and>
   diagonal (direction_correlations (rows_of n 1 xs)) = NaN"
  by (simp add: direction_correlations_def calculate_direction_correlation_def
        column_views_empty [of "Suc 0"] corrcoef_Nil)

lemma avg_correlation_NaN: "horizontal c = NaN \<Longrightarrow> avg_correlation c = NaN"
  by (simp add: avg_correlation_def np_mean_def np_sum_def)

lemma strength_score_NaN_le: "strength_score e NaN n \<le> 4"
  by (simp add: strength_score_def Let_def)

lemma strength_score_NaN: "strength_score e NaN n = strength_score e (Fin 1) n"
  by (simp add: strength_score_def Let_def)

lemma analyze_correlations:
  assumes "analyze_encryption_strength F orig enc = Inr r"
  shows "correlations r = direction_correlations (rows_of (length enc) 1 (map to_float enc))"
  using assms
  by (auto simp add: analyze_encryption_strength_def Let_def calculate_correlation_def
        reshape_column_def split: sum.splits)

lemma analyze_succeeds:
  "isl (analyze_encryption_strength F orig enc) \<longleftrightarrow> length orig \<noteq> length enc"
  by (simp add: analyze_encryption_strength_def Let_def calculate_correlation_def
        calculate_entropy_def calculate_npcr_uaci_def reshape_column_def)

lemma analyze_returns:
  assumes "length orig = length enc"
  shows "\<exists>r. analyze_encryption_strength F orig enc = Inr r"
proof -
  have "\<not> isl (analyze_encryption_strength F orig enc)"
    using assms by (simp add: analyze_succeeds)
  then show ?thesis by (cases "analyze_encryption_strength F orig enc") auto
qed

lemma analyze_empty:
  "analyze_encryption_strength single_precision [] [] =
     Inr \<lparr>npcr = NaN, uaci = NaN, entropy = Fin 0,
          correlations = \<lparr>horizontal = NaN, vertical = NaN, diagonal = NaN\<rparr>,
          verdict = Weak\<rparr>"
proof -
  have c: "calculate_correlation (reshape_column []) =
             Inr \<lparr>horizontal = NaN, vertical = NaN, diagonal = NaN\<rparr>"
    by (simp add: calculate_correlation_def reshape_column_def rows_of_def
          direction_correlations_def calculate_direction_correlation_def corrcoef_Nil)
  have a: "avg_correlation \<lparr>horizontal = NaN, vertical = NaN, diagonal = NaN\<rparr> = NaN"
    by (simp add: avg_correlation_NaN)
  have v: "verdict_of (strength_score (Fin 0) NaN NaN) = Weak"
    by (simp add: strength_score_def verdict_of_def np_gt_def Let_def)
  show ?thesis
    by (simp add: analyze_encryption_strength_def calculate_entropy_Nil c npcr_uaci_empty a v)
qed

text \<open>
  C2. The score computed by \<open>analyze_encryption_strength\<close> is the one of the
  specification's table, for all values of the three measures, NaN and the infinities
  included; the verdict is Strong from 5 on, Moderate for 3 and 4, and Weak below 3; the
  verdict returned by \<open>analyze_encryption_strength\<close> is the one of the table's score of
  the measures it returns, whatever the rounding of NPCR. The three examples of the
  specification and the six boundary values score as stated: the thresholds themselves
  earn the lower number of points.
\<close>

theorem strength_verdict_table:
  "strength_score e c n = spec_table_score e c n \<and>
   (verdict_of s = Strong \<longleftrightarrow> 5 \<le> s) \<and>
   (verdict_of s = Moderate \<longleftrightarrow> 3 \<le> s \<and> s < 5) \<and>
   (verdict_of s = Weak \<longleftrightarrow> s < 3) \<and>
   (analyze_encryption_strength F orig enc = Inr r \<longrightarrow>
      verdict r =
        verdict_of (spec_table_score (entropy r) (avg_correlation (correlations r)) (npcr r))) \<and>
   strength_score (Fin 7.91) (Fin 0.05) (Fin 99.5) = 6 \<and> verdict_of 6 = Strong \<and>
   strength_score (Fin 7.6) (Fin 0.2) (Fin 95) = 3 \<and> verdict_of 3 = Moderate \<and>
   strength_score (Fin 7.0) (Fin 0.5) (Fin 50) = 0 \<and> verdict_of 0 = Weak \<and>
   strength_score (Fin 7.9) (Fin 1) (Fin 0) = 1 \<and>
   strength_score (Fin 7.5) (Fin 1) (Fin 0) = 0 \<and>
   strength_score (Fin 0) (Fin 0.1) (Fin 0) = 1 \<and>
   strength_score (Fin 0) (Fin 0.3) (Fin 0) = 0 \<and>
   strength_score (Fin 0) (Fin 1) (Fin 99) = 1 \<and>
   strength_score (Fin 0) (Fin 1) (Fin 90) = 0 \<and>
   verdict_of 5 = Strong \<and> verdict_of 4 = Moderate \<and> verdict_of 2 = Weak"
proof -
  have v: "analyze_encryption_strength F orig enc = Inr r \<longrightarrow>
      verdict r =
        verdict_of (spec_table_score (entropy r) (avg_correlation (correlations r)) (npcr r))"
    using analyze_verdict [of F orig enc r] by (simp add: strength_score_eq_table)
  have x: "strength_score (Fin 7.91) (Fin 0.05) (Fin 99.5) = 6"
    "strength_score (Fin 7.6) (Fin 0.2) (Fin 95) = 3"
    "strength_score (Fin 7.0) (Fin 0.5) (Fin 50) = 0"
    "strength_score (Fin 7.9) (Fin 1) (Fin 0) = 1"
    "strength_score (Fin 7.5) (Fin 1) (Fin 0) = 0"
    "strength_score (Fin 0) (Fin 0.1) (Fin 0) = 1"
    "strength_score (Fin 0) (Fin 0.3) (Fin 0) = 0"
    "strength_score (Fin 0) (Fin 1) (Fin 99) = 1"
    "strength_score (Fin 0) (Fin 1) (Fin 90) = 0"
    by (simp_all add: strength_score_def np_gt_def Let_def)
  have y: "verdict_of 6 = Strong" "verdict_of 3 = Moderate" "verdict_of 0 = Weak"
    "verdict_of 5 = Strong" "verdict_of 4 = Moderate" "verdict_of 2 = Weak"
    by (simp_all add: verdict_of_def)
  from strength_score_eq_table [of e c n] verdict_of_iff [of s] v x y
  show ?thesis by (intro conjI) simp_all
qed

theorem strength_verdict_table_witness:
  "(\<exists>r. analyze_encryption_strength single_precision [1, 2] [3, 4] = Inr r \<and>
        verdict r =
          verdict_of (spec_table_score (entropy r) (avg_correlation (correlations r)) (npcr r))) \<and>
   analyze_encryption_strength single_precision [] [] =
     Inr \<lparr>npcr = NaN, uaci = NaN, entropy = Fin 0,
          correlations = \<lparr>horizontal = NaN, vertical = NaN, diagonal = NaN\<rparr>,
          verdict = Weak\<rparr> \<and>
   Weak = verdict_of (spec_table_score (Fin 0)
            (avg_correlation \<lparr>horizontal = NaN, vertical = NaN, diagonal = NaN\<rparr>) NaN)"
proof -
  obtain r where r: "analyze_encryption_strength single_precision [1, 2] [3, 4] = Inr r"
    using analyze_returns [of "[1, 2]" "[3, 4]" single_precision] by auto
  have a: "verdict r =
          verdict_of (spec_table_score (entropy r) (avg_correlation (correlations r)) (npcr r))"
    using strength_verdict_table
            [where F = single_precision and orig = "[1, 2]" and enc = "[3, 4]" and r = r] r
    by blast
  have b: "Weak = verdict_of (spec_table_score (Fin 0)
            (avg_correlation \<lparr>horizontal = NaN, vertical = NaN, diagonal = NaN\<rparr>) NaN)"
    using strength_verdict_table [where F = single_precision and orig = "[]" and enc = "[]" and r =
            "\<lparr>npcr = NaN, uaci = NaN, entropy = Fin 0,
              correlations = \<lparr>horizontal = NaN, vertical = NaN, diagonal = NaN\<rparr>,
              verdict = Weak\<rparr>"] analyze_empty
    by simp
  from r a b analyze_empty show ?thesis by blast
qed

text \<open>
  C9. Whenever \<open>analyze_encryption_strength\<close> returns, the correlations are those of the
  one-column array of the encrypted bytes; the views \<open>image[:, :-1]\<close> and
  \<open>image[:-1, :-1]\<close> of it are empty, the horizontal and the diagonal coefficient are
  NaN, and so is the mean of the absolute coefficients; the correlation check adds no
  point, the score is at most 4, and the verdict is Moderate or Weak, never Strong. This
  holds whatever the rounding of NPCR and UACI.
\<close>

theorem single_column_never_strong:
  assumes "analyze_encryption_strength F orig enc = Inr r"
  shows "correlations r = direction_correlations (rows_of (length enc) 1 (map to_float enc)) \<and>
         concat (map butlast (rows_of (length enc) 1 (map to_float enc))) = [] \<and>
         concat (map butlast (butlast (rows_of (length enc) 1 (map to_float enc)))) = [] \<and>
         horizontal (correlations r) = NaN \<and> diagonal (correlations r) = NaN \<and>
         avg_correlation (correlations r) = NaN \<and>
         strength_score (entropy r) (avg_correlation (correlations r)) (npcr r) =
           strength_score (entropy r) (Fin 1) (npcr r) \<and>
         strength_score (entropy r) (avg_correlation (correlations r)) (npcr r) \<le> 4 \<and>
         verdict r \<noteq> Strong \<and> (verdict r = Moderate \<or> verdict r = Weak)"
proof -
  let ?rows = "rows_of (length enc) 1 (map to_float enc)"
  have c: "correlations r = direction_correlations ?rows"
    by (rule analyze_correlations [OF assms])
  have e1: "concat (map butlast ?rows) = []" by (rule column_views_empty(1)) simp
  have e2: "concat (map butlast (butlast ?rows)) = []" by (rule column_views_empty(2)) simp
  have h: "horizontal (correlations r) = NaN" and d: "diagonal (correlations r) = NaN"
    using column_correlations [of "length enc" "map to_float enc"] by (simp_all only: c)
  have a: "avg_correlation (correlations r) = NaN" by (rule avg_correlation_NaN [OF h])
  let ?s = "strength_score (entropy r) (avg_correlation (correlations r)) (npcr r)"
  have s1: "?s = strength_score (entropy r) (Fin 1) (npcr r)"
    by (simp only: a strength_score_NaN)
  have s2: "?s \<le> 4" by (simp only: a strength_score_NaN_le)
  have v: "verdict r = verdict_of ?s" by (rule analyze_verdict [OF assms])
  have v1: "verdict r \<noteq> Strong" using s2 v by (simp add: verdict_of_def)
  have v2: "verdict r = Moderate \<or> verdict r = Weak" using s2 v by (simp add: verdict_of_def)
  from c e1 e2 h d a s1 s2 v1 v2 show ?thesis by (intro conjI)
qed

theorem single_column_never_strong_witness:
  "(\<exists>r. analyze_encryption_strength single_precision [1, 2] [3, 4] = Inr r \<and>
        horizontal (correlations r) = NaN \<and> diagonal (correlations r) = NaN \<and>
        avg_correlation (correlations r) = NaN \<and>
        strength_score (entropy r) (avg_correlation (correlations r)) (npcr r) \<le> 4 \<and>
        verdict r \<noteq> Strong) \<and>
   analyze_encryption_strength single_precision [] [] =
     Inr \<lparr>npcr = NaN, uaci = NaN, entropy = Fin 0,
          correlations = \<lparr>horizontal = NaN, vertical = NaN, diagonal = NaN\<rparr>,
          verdict = Weak\<rparr> \<and>
   strength_score (Fin 0)
     (avg_correlation \<lparr>horizontal = NaN, vertical = NaN, diagonal = NaN\<rparr>) NaN \<le> 4"
proof -
  obtain r where r: "analyze_encryption_strength single_precision [1, 2] [3, 4] = Inr r"
    using analyze_returns [of "[1, 2]" "[3, 4]" single_precision] by auto
  note t = single_column_never_strong [OF r]
  have a: "horizontal (correlations r) = NaN \<and> diagonal (correlations r) = NaN \<and>
        avg_correlation (correlations r) = NaN \<and>
        strength_score (entropy r) (avg_correlation (correlations r)) (npcr r) \<le> 4 \<and>
        verdict r \<noteq> Strong"
    using t by blast
  have b: "strength_score (Fin 0)
     (avg_correlation \<lparr>horizontal = NaN, vertical = NaN, diagonal = NaN\<rparr>) NaN \<le> 4"
  proof -
    let ?R = "\<lparr>npcr = NaN, uaci = NaN, entropy = Fin 0,
               correlations = \<lparr>horizontal = NaN, vertical = NaN, diagonal = NaN\<rparr>,
               verdict = Weak\<rparr>"
    have "strength_score (entropy ?R) (avg_correlation (correlations ?R)) (npcr ?R) \<le> 4"
      using single_column_never_strong [OF analyze_empty] by blast
    then show ?thesis by simp
  qed
  from r a b analyze_empty show ?thesis by blast
qed

end
